theory Spec2Isabelle
  imports
    Main
    "HOL-Library.Char_ord"
    "HOL-Library.List_Lexorder"
    "HOL-Library.Product_Lexorder"
    "HOL-Library.Sublist"
    "HOL-Library.AList"
begin

text \<open>
  A shallow embedding of \<^verbatim>\<open>config.py\<close>, the kitten that prints the configuration of the
  kitty terminal: the selection of report parts, the splitting and ordering of triggers,
  the table formatter, the differ of key and mouse bindings, the option differ, the
  actions report and the assembly of the report. Python strings are lists of characters;
  a \<open>char\<close> is a code point below 256, and lengths count characters as \<^verbatim>\<open>len\<close> counts code
  points. Module globals are fields of the record \<open>globals\<close>, passed in and returned by every
  function that reads or writes them; an exception is the left summand of a result.
  Functions and values of the host application are parameters.
\<close>

section \<open>The selection state (class CmdArgs)\<close>

text \<open>
  The seven report parts are attributes of the object, read and written by name through
  \<^verbatim>\<open>getattr\<close> and \<^verbatim>\<open>setattr\<close> over the list \<^verbatim>\<open>self.parts\<close>. Each is a tri-state:
  \<^verbatim>\<open>None\<close> (unset), \<^verbatim>\<open>True\<close> or \<^verbatim>\<open>False\<close>, hence a \<open>bool option\<close>.
  The attribute \<^verbatim>\<open>what\<close> is created by \<^verbatim>\<open>resolveParts\<close>; it is the empty string here
  until then. The attributes \<^verbatim>\<open>sort\<close> and \<^verbatim>\<open>empty\<close> are the fields \<open>sort'\<close> and
  \<open>empty'\<close>: the plain names are constants of the library.
\<close>

datatype part = Info | Config | Mouse | Keys | Colors | Env | Actions

record CmdArgs =
  diff :: bool
  sort' :: string
  plain :: bool
  links :: bool
  deleted :: bool
  empty' :: bool
  info :: "bool option"
  config :: "bool option"
  mouse :: "bool option"
  keys :: "bool option"
  colors :: "bool option"
  env :: "bool option"
  actions :: "bool option"
  what :: string

definition parts :: "part list" where
  "parts = [Info, Config, Mouse, Keys, Colors, Env, Actions]"

fun getattr :: "CmdArgs \<Rightarrow> part \<Rightarrow> bool option" where
  "getattr a Info = info a"
| "getattr a Config = config a"
| "getattr a Mouse = mouse a"
| "getattr a Keys = keys a"
| "getattr a Colors = colors a"
| "getattr a Env = env a"
| "getattr a Actions = actions a"

fun setattr :: "part \<Rightarrow> bool option \<Rightarrow> CmdArgs \<Rightarrow> CmdArgs" where
  "setattr Info v a = a\<lparr>info := v\<rparr>"
| "setattr Config v a = a\<lparr>config := v\<rparr>"
| "setattr Mouse v a = a\<lparr>mouse := v\<rparr>"
| "setattr Keys v a = a\<lparr>keys := v\<rparr>"
| "setattr Colors v a = a\<lparr>colors := v\<rparr>"
| "setattr Env v a = a\<lparr>env := v\<rparr>"
| "setattr Actions v a = a\<lparr>actions := v\<rparr>"

text \<open>\<^verbatim>\<open>for attr in self.parts: setattr(self, attr, val)\<close>\<close>

definition set_all_parts :: "bool option \<Rightarrow> CmdArgs \<Rightarrow> CmdArgs" where
  "set_all_parts v a = fold (\<lambda>attr. setattr attr v) parts a"

text \<open>\<^verbatim>\<open>for attr in self.parts: if getattr(self, attr) is None: setattr(self, attr, val)\<close>\<close>

definition set_none_parts :: "bool \<Rightarrow> CmdArgs \<Rightarrow> CmdArgs" where
  "set_none_parts v a =
     fold (\<lambda>attr b. if getattr b attr = None then setattr attr (Some v) b else b) parts a"

definition defaults :: "CmdArgs \<Rightarrow> CmdArgs" where
  "defaults a =
     set_all_parts None
       (a\<lparr>diff := False, sort' := [], plain := False, links := True,
          deleted := True, empty' := True\<rparr>)"

definition init_CmdArgs :: CmdArgs where
  "init_CmdArgs =
     defaults \<lparr>diff = False, sort' = [], plain = False, links = True, deleted = True,
       empty' = True, info = None, config = None, mouse = None, keys = None,
       colors = None, env = None, actions = None, what = []\<rparr>"

text \<open>The property \<^verbatim>\<open>all\<close>: its getter and its setter.\<close>

definition get_all :: "CmdArgs \<Rightarrow> bool" where
  "get_all a = list_all (\<lambda>attr. getattr a attr = Some True) parts"

definition set_all :: "bool option \<Rightarrow> CmdArgs \<Rightarrow> CmdArgs" where
  "set_all val a = (case val of None \<Rightarrow> a | Some v \<Rightarrow> set_all_parts (Some v) a)"

text \<open>The property \<^verbatim>\<open>debug_config\<close>: the getter is constantly false.\<close>

definition get_debug_config :: "CmdArgs \<Rightarrow> bool" where
  "get_debug_config a = False"

definition set_debug_config :: "bool option \<Rightarrow> CmdArgs \<Rightarrow> CmdArgs" where
  "set_debug_config val a =
     (case val of
        None \<Rightarrow> a
      | Some True \<Rightarrow>
          (set_all_parts (Some True)
             (a\<lparr>diff := True, sort' := [], deleted := True, empty' := False\<rparr>))
            \<lparr>actions := Some False\<rparr>
      | Some False \<Rightarrow> defaults a)"

definition resolveParts :: "CmdArgs \<Rightarrow> CmdArgs" where
  "resolveParts a =
     (let partVals = map (getattr a) parts;
          a1 = (if list_ex (\<lambda>p. p = Some True) partVals then set_none_parts False a
                else if list_ex (\<lambda>p. p = Some False) partVals then set_none_parts True a
                else set_all_parts (Some True) a);
          a2 = (if diff a1 then a1\<lparr>empty' := False\<rparr> else a1);
          a3 = (if plain a2 then a2\<lparr>links := False\<rparr> else a2)
      in a3\<lparr>what := (if diff a3 then ''DIFF of'' else ''ALL'')\<rparr>)"

section \<open>Splitting triggers and actions\<close>

text \<open>
  \<^verbatim>\<open>shortcutRe = r'^((([^ +]+)\+)*)(.*)$'\<close>, used with \<^verbatim>\<open>re.fullmatch\<close>. Group 1 is a
  repetition of segments, each one or more characters other than space and plus followed by
  a plus; both the repetition and the segment are greedy, and a shorter choice can never
  help: after a shorter segment the next character is not a plus, and after fewer segments
  group 4 has more to match. So group 1 is the longest prefix of that shape, computed by
  \<open>match_mods\<close>, and the match fails exactly when what is left holds a newline, which
  \<^verbatim>\<open>.\<close> does not match.
\<close>

definition mod_char :: "char \<Rightarrow> bool" where
  "mod_char c \<longleftrightarrow> c \<noteq> CHR '' '' \<and> c \<noteq> CHR ''+''"

function match_mods :: "string \<Rightarrow> string \<times> string" where
  "match_mods s =
     (case dropWhile mod_char s of
        [] \<Rightarrow> ([], s)
      | c # rest \<Rightarrow>
          if c = CHR ''+'' \<and> takeWhile mod_char s \<noteq> []
          then (case match_mods rest of (m, k) \<Rightarrow> (takeWhile mod_char s @ [CHR ''+''] @ m, k))
          else ([], s))"
  by pat_completeness auto
termination
proof (relation "measure length")
  show "wf (measure length)" by simp
next
  fix s :: string and c rest
  assume "dropWhile mod_char s = c # rest"
  then have "length (dropWhile mod_char s) = Suc (length rest)"
    by simp
  moreover have "length (dropWhile mod_char s) \<le> length s"
    by (rule length_dropWhile_le)
  ultimately show "(rest, s) \<in> measure length"
    by simp
qed

declare match_mods.simps [simp del]

definition shortcutSplit :: "string \<Rightarrow> string \<times> string" where
  "shortcutSplit txt =
     (case match_mods txt of
        (m, k) \<Rightarrow> if CHR 0x0A \<in> set k then ([], txt) else (m, k))"

text \<open>
  \<^verbatim>\<open>re.fullmatch(r'([^ ]+)( .*)', txt)\<close>: group 1 is the longest run of characters other
  than space, which must be non-empty and followed by a space; the rest after that space
  must hold no newline.
\<close>

definition actionSplit :: "string \<Rightarrow> string \<times> string" where
  "actionSplit txt =
     (let a = takeWhile (\<lambda>c. c \<noteq> CHR '' '') txt;
          r = dropWhile (\<lambda>c. c \<noteq> CHR '' '') txt
      in if a \<noteq> [] \<and> r \<noteq> [] \<and> CHR 0x0A \<notin> set (tl r) then (a, r) else (txt, []))"

definition shortcutSortKey :: "string \<Rightarrow> string" where
  "shortcutSortKey txt = (case shortcutSplit txt of (mods, key) \<Rightarrow> key @ '' zzz '' @ mods)"

text \<open>
  \<^verbatim>\<open>for k in sorted([(shortcutSortKey(s), s) for s in defns]): k = k[1]\<close>: the triggers
  in the order of the pairs (sort key, trigger). Python orders tuples lexicographically
  and strings by code point, a proper prefix first.
\<close>

definition sorted_triggers :: "string list \<Rightarrow> string list" where
  "sorted_triggers ts = map snd (sort (map (\<lambda>s. (shortcutSortKey s, s)) ts))"

text \<open>The bare key of a trigger: the trigger with its modifier prefix stripped.\<close>

definition bare_key :: "string \<Rightarrow> string" where
  "bare_key s = snd (shortcutSplit s)"

section \<open>Strings, styling and hyperlinks\<close>

text \<open>Python's \<^verbatim>\<open>str(n)\<close> for an integer: decimal digits, with a minus sign when negative.\<close>

definition digit_char :: "nat \<Rightarrow> char" where
  "digit_char d = char_of (48 + d)"

function str_nat :: "nat \<Rightarrow> string" where
  "str_nat n = (if n < 10 then [digit_char n] else str_nat (n div 10) @ [digit_char (n mod 10)])"
  by pat_completeness auto
termination
  by (relation "measure id") auto

declare str_nat.simps [simp del]

definition str_int :: "int \<Rightarrow> string" where
  "str_int i = (if i < 0 then CHR ''-'' # str_nat (nat (- i)) else str_nat (nat i))"

text \<open>\<^verbatim>\<open>' ' * n\<close>: the empty string when \<open>n\<close> is not positive.\<close>

definition spaces :: "int \<Rightarrow> string" where
  "spaces n = replicate (nat n) CHR '' ''"

text \<open>\<^verbatim>\<open>sep.join(xs)\<close>\<close>

fun join :: "string \<Rightarrow> string list \<Rightarrow> string" where
  "join sep [] = []"
| "join sep [x] = x"
| "join sep (x # y # ys) = x @ sep @ join sep (y # ys)"

text \<open>
  The styling primitives \<^verbatim>\<open>colored\<close> and \<^verbatim>\<open>styled\<close> belong to the host
  (\<^verbatim>\<open>kittens.tui.operations\<close>); they are parameters of the model. \<open>colored h x c i\<close> is
  \<^verbatim>\<open>colored(x, c, intense=i)\<close> and \<open>styled_dim h x\<close> is \<^verbatim>\<open>styled(x, dim=True)\<close>.
\<close>

record tui =
  colored :: "string \<Rightarrow> string \<Rightarrow> bool \<Rightarrow> string"
  styled_dim :: "string \<Rightarrow> string"

definition red :: "tui \<Rightarrow> string \<Rightarrow> string" where
  "red h x = colored h x ''red'' False"

definition green :: "tui \<Rightarrow> string \<Rightarrow> string" where
  "green h x = colored h x ''green'' False"

definition yellow :: "tui \<Rightarrow> string \<Rightarrow> string" where
  "yellow h x = colored h x ''yellow'' False"

definition blue :: "tui \<Rightarrow> string \<Rightarrow> string" where
  "blue h x = colored h x ''blue'' False"

definition title :: "tui \<Rightarrow> string \<Rightarrow> string" where
  "title h x = colored h x ''blue'' True"

definition dim :: "tui \<Rightarrow> string \<Rightarrow> string" where
  "dim h x = styled_dim h x"

definition nofmt :: "string \<Rightarrow> string" where
  "nofmt x = x"

text \<open>
  The module's global state: the selection object \<^verbatim>\<open>cmdArgs\<close>, the counter
  \<^verbatim>\<open>link_id\<close>, the reverse index \<^verbatim>\<open>action2key\<close> (a dict whose values are lists, kept
  as an association list in insertion order), and the text written so far to the buffer
  behind the print function of \<^verbatim>\<open>debug_config\<close>.
\<close>

record globals =
  cmdArgs :: CmdArgs
  link_id :: int
  action2key :: "(string \<times> (string \<times> string) list) list"
  out :: string

definition init_globals :: globals where
  "init_globals = \<lparr>cmdArgs = init_CmdArgs, link_id = 1, action2key = [], out = []\<rparr>"

definition link :: "string \<Rightarrow> string \<Rightarrow> globals \<Rightarrow> string \<times> globals" where
  "link url txt g =
     (let g' = g\<lparr>link_id := link_id g + 1\<rparr>
      in (if links (cmdArgs g')
          then [CHR 0x1B] @ '']8;id='' @ str_int (link_id g') @ '';'' @ url @ [CHR 0x1B, CHR 0x5C]
                 @ txt @ [CHR 0x1B] @ '']8;;'' @ [CHR 0x1B, CHR 0x5C]
          else txt, g'))"

definition nolink :: "globals \<Rightarrow> string" where
  "nolink g = (if links (cmdArgs g) then [CHR 0x1B] @ '']8;;'' @ [CHR 0x1B, CHR 0x5C] else [])"

definition eolnl :: "globals \<Rightarrow> string" where
  "eolnl g =
     (if links (cmdArgs g) then [CHR 0x0A, CHR 0x1B] @ '']8;;'' @ [CHR 0x1B, CHR 0x5C]
      else [CHR 0x0A])"

definition linkAction :: "string \<Rightarrow> globals \<Rightarrow> string \<times> globals" where
  "linkAction txt g = link (''https://sw.kovidgoyal.net/kitty/actions/#action-'' @ txt) txt g"

definition linkConfig :: "string \<Rightarrow> globals \<Rightarrow> string \<times> globals" where
  "linkConfig txt g = link (''https://sw.kovidgoyal.net/kitty/conf/#opt-kitty.'' @ txt) txt g"

section \<open>The table formatter\<close>

text \<open>
  A justification function takes the column width and the cell. \<^verbatim>\<open>formatConf\<close> and
  \<^verbatim>\<open>formatAction\<close> call \<^verbatim>\<open>link\<close>, which advances \<^verbatim>\<open>link_id\<close>, so a justification
  function also passes the global state on.
\<close>

type_synonym JustFn = "int \<Rightarrow> string \<Rightarrow> globals \<Rightarrow> string \<times> globals"

definition nojust :: JustFn where
  "nojust n s g = (s, g)"

definition ljust :: JustFn where
  "ljust n s g = (s @ spaces (n - int (length s)), g)"

definition rjust :: JustFn where
  "rjust n s g = (spaces (n - int (length s)) @ s, g)"

text \<open>
  \<^verbatim>\<open>str.center\<close>: the left padding is half of the margin, rounded up exactly when both
  the margin and the width are odd.
\<close>

definition center :: JustFn where
  "center n s g =
     (let marg = n - int (length s);
          left = marg div 2 + (if odd marg \<and> odd n then 1 else 0)
      in (if marg \<le> 0 then s else spaces left @ s @ spaces (marg - left), g))"

definition formatConf :: JustFn where
  "formatConf n s g = (case linkConfig s g of (l, g') \<Rightarrow> (l @ spaces (n - int (length s)), g'))"

definition formatAction :: JustFn where
  "formatAction n s g =
     (case actionSplit s of
        (action, args) \<Rightarrow>
          (case linkAction action g of (l, g') \<Rightarrow> (l @ args @ spaces (n - int (length s)), g')))"

record TabFmt =
  indent :: int
  justFn :: JustFn
  fmtFn :: "string \<Rightarrow> string"

definition TabFmt_default :: TabFmt where
  "TabFmt_default = \<lparr>indent = 0, justFn = nojust, fmtFn = nofmt\<rparr>"

text \<open>
  \<^verbatim>\<open>zip(*a)\<close> for a non-empty list of rows: the columns, as many as the shortest row has
  cells.
\<close>

definition zip_star :: "'a list list \<Rightarrow> 'a list list" where
  "zip_star a = map (\<lambda>j. map (\<lambda>row. row ! j) a) [0..<Min (set (map length a))]"

text \<open>\<^verbatim>\<open>field_lens = [max(map(len, aa)) for aa in zip(*a)]\<close>\<close>

definition field_lens :: "string list list \<Rightarrow> int list" where
  "field_lens a = map (\<lambda>aa. Max (set (map (\<lambda>s. int (length s)) aa))) (zip_star a)"

text \<open>
  The function mapped over \<^verbatim>\<open>zip(row, fmt, field_lens)\<close>: indent, justify to the width,
  then style.
\<close>

definition formatCell :: "string \<times> TabFmt \<times> int \<Rightarrow> globals \<Rightarrow> string \<times> globals" where
  "formatCell c g =
     (case c of
        (val, fmt1, width) \<Rightarrow>
          (case justFn fmt1 width val g of
             (j, g') \<Rightarrow> (spaces (indent fmt1) @ fmtFn fmt1 j, g')))"

text \<open>The cells of one row, left to right, and the cells of all rows, top to bottom.\<close>

fun formatCells :: "(string \<times> TabFmt \<times> int) list \<Rightarrow> globals \<Rightarrow> string list \<times> globals" where
  "formatCells [] g = ([], g)"
| "formatCells (c # cs) g =
     (case formatCell c g of
        (x, g1) \<Rightarrow> (case formatCells cs g1 of (xs, g2) \<Rightarrow> (x # xs, g2)))"

fun formatRows ::
  "string list list \<Rightarrow> TabFmt list \<Rightarrow> int list \<Rightarrow> globals \<Rightarrow> string list list \<times> globals" where
  "formatRows [] fmt ws g = ([], g)"
| "formatRows (row # rows) fmt ws g =
     (case formatCells (zip row (zip fmt ws)) g of
        (cells, g1) \<Rightarrow> (case formatRows rows fmt ws g1 of (rest, g2) \<Rightarrow> (cells # rest, g2)))"

definition formatTable ::
  "string list list \<Rightarrow> TabFmt list \<Rightarrow> globals \<Rightarrow> (string list \<times> string) list \<times> globals" where
  "formatTable a fmt g =
     (if length a = 0 then ([], g)
      else (case formatRows a fmt (field_lens a) g of
              (cells, g') \<Rightarrow> (zip a (map concat cells), g')))"

text \<open>
  The print function handed around: the positional arguments, the keyword \<^verbatim>\<open>end\<close> when
  given, and the state holding the buffer.
\<close>

type_synonym Print = "string list \<Rightarrow> string option \<Rightarrow> globals \<Rightarrow> globals"

definition printTable ::
  "string list list \<Rightarrow> TabFmt list \<Rightarrow> Print \<Rightarrow> (string list \<Rightarrow> string \<Rightarrow> string) \<Rightarrow>
   globals \<Rightarrow> globals" where
  "printTable a fmt print rowFmtFn g =
     (case formatTable a fmt g of
        (rows, g') \<Rightarrow> fold (\<lambda>(row, txt). print [rowFmtFn row txt] None) rows g')"

text \<open>
  For the comparison of a table with its unstyled form: the column formats with the
  identity as style function, a cell with the style of a format applied to what follows
  its indentation, and a zipped cell with the identity as style function.
\<close>

definition plain_fmt :: "TabFmt list \<Rightarrow> TabFmt list" where
  "plain_fmt fmt = map (\<lambda>f. f\<lparr>fmtFn := nofmt\<rparr>) fmt"

definition restyle_cell :: "TabFmt \<Rightarrow> string \<Rightarrow> string" where
  "restyle_cell f x0 = spaces (indent f) @ fmtFn f (drop (nat (indent f)) x0)"

definition plain_cell :: "string \<times> TabFmt \<times> int \<Rightarrow> string \<times> TabFmt \<times> int" where
  "plain_cell c = (case c of (v, f, w) \<Rightarrow> (v, f\<lparr>fmtFn := nofmt\<rparr>, w))"

section \<open>The mapping differ\<close>

text \<open>
  A Python dict is an association list with distinct keys in insertion order:
  \<open>AList.update\<close> replaces the value of a key in place and appends a new key at the end,
  as assignment to a dict does. \<open>dict_of_items\<close> is \<^verbatim>\<open>dict(items)\<close>, and \<open>rekey\<close> is the
  comprehension \<^verbatim>\<open>{k.human_repr(kitty_mod): v for k, v in m.items()}\<close>, where
  \<^verbatim>\<open>human_repr\<close> belongs to the host's trigger types and is a parameter.
\<close>

definition dict_of_items :: "('k \<times> 'v) list \<Rightarrow> ('k \<times> 'v) list" where
  "dict_of_items items = fold (\<lambda>(k, v). AList.update k v) items []"

definition rekey ::
  "('e \<Rightarrow> int \<Rightarrow> string) \<Rightarrow> int \<Rightarrow> ('e \<times> string) list \<Rightarrow> (string \<times> string) list" where
  "rekey human_repr kitty_mod m = dict_of_items (map (\<lambda>(k, v). (human_repr k kitty_mod, v)) m)"

text \<open>\<^verbatim>\<open>d[k]\<close> for a key the loop takes from \<open>d\<close> itself.\<close>

definition dict_get :: "(string \<times> string) list \<Rightarrow> string \<Rightarrow> string" where
  "dict_get d k = (case map_of d k of Some v \<Rightarrow> v | None \<Rightarrow> [])"

text \<open>\<^verbatim>\<open>d.setdefault(k, []).append(x)\<close>\<close>

definition setdefault_append ::
  "string \<Rightarrow> 'x \<Rightarrow> (string \<times> 'x list) list \<Rightarrow> (string \<times> 'x list) list" where
  "setdefault_append k x d =
     (case map_of d k of None \<Rightarrow> d @ [(k, [x])] | Some xs \<Rightarrow> AList.update k (xs @ [x]) d)"

text \<open>
  \<^verbatim>\<open>re.sub(r' .*$', r'', s)\<close>: the text is cut at the leftmost space after which no
  newline follows, except possibly as the very last character, which is kept.
\<close>

fun sub_space_tail :: "string \<Rightarrow> string" where
  "sub_space_tail [] = []"
| "sub_space_tail (c # cs) =
     (if c = CHR '' '' \<and> CHR 0x0A \<notin> set (butlast cs)
      then (if cs \<noteq> [] \<and> last cs = CHR 0x0A then [CHR 0x0A] else [])
      else c # sub_space_tail cs)"

text \<open>The three sets computed by \<^verbatim>\<open>compare_maps\<close>.\<close>

definition added_keys :: "(string \<times> string) list \<Rightarrow> (string \<times> string) list \<Rightarrow> string set" where
  "added_keys ef ei = set (map fst ef) - set (map fst ei)"

definition removed_keys :: "(string \<times> string) list \<Rightarrow> (string \<times> string) list \<Rightarrow> string set" where
  "removed_keys ef ei = set (map fst ei) - set (map fst ef)"

definition changed_keys :: "(string \<times> string) list \<Rightarrow> (string \<times> string) list \<Rightarrow> string set" where
  "changed_keys ef ei =
     Set.filter (\<lambda>k. map_of ef k \<noteq> map_of ei k) (set (map fst ef) \<inter> set (map fst ei))"

text \<open>
  One turn of the loop of \<^verbatim>\<open>print_mapping_changes\<close> for the trigger \<open>k\<close>: the table
  built so far and the global state go in and come out.
\<close>

definition mapping_row ::
  "(string \<times> string) list \<Rightarrow> string set \<Rightarrow> string set \<Rightarrow> string set \<Rightarrow> string \<Rightarrow>
   string list list \<times> globals \<Rightarrow> string list list \<times> globals" where
  "mapping_row defns added removed changed k tg =
     (case tg of
        (table, g) \<Rightarrow>
          let isremoved = k \<in> removed;
              ischanged = k \<in> changed;
              isadded = k \<in> added;
              flags = (if isadded then ''  A  '' else if ischanged then ''  C  ''
                       else if isremoved then ''  -  '' else ''     '')
          in if diff (cmdArgs g) \<and> (\<not> isadded \<and> \<not> ischanged \<and> \<not> isremoved) then (table, g)
             else
               (case (if \<not> isremoved then formatAction 0 (dict_get defns k) g
                      else (''     '', g)) of
                  (v, g1) \<Rightarrow>
                    (case (if ischanged \<or> isremoved
                           then (case formatAction 0 (dict_get defns k) g1 of
                                   (t, g') \<Rightarrow> (''  '' @ [CHR 0x09] @ ''('' @ t @ '')'', g'))
                           else ([], g1)) of
                       (orig, g2) \<Rightarrow>
                         let g3 = (if \<not> isremoved
                                   then g2\<lparr>action2key :=
                                          setdefault_append (sub_space_tail (dict_get defns k))
                                            (k, dict_get defns k) (action2key g2)\<rparr>
                                   else g2)
                         in if isremoved \<and> \<not> deleted (cmdArgs g3) then (table, g3)
                            else (table @ [[fst (shortcutSplit k), snd (shortcutSplit k),
                                            flags, v, orig]], g3))))"

text \<open>The loop over the triggers of \<open>defns\<close> in key-centric order.\<close>

definition mapping_rows ::
  "(string \<times> string) list \<Rightarrow> string set \<Rightarrow> string set \<Rightarrow> string set \<Rightarrow> globals \<Rightarrow>
   string list list \<times> globals" where
  "mapping_rows defns added removed changed g =
     fold (mapping_row defns added removed changed) (sorted_triggers (map fst defns)) ([], g)"

definition print_mapping_changes ::
  "tui \<Rightarrow> part \<Rightarrow> (string \<times> string) list \<Rightarrow> (string \<times> string) list \<Rightarrow>
   string set \<Rightarrow> string set \<Rightarrow> string set \<Rightarrow> string \<Rightarrow> Print \<Rightarrow> globals \<Rightarrow> globals" where
  "print_mapping_changes h wh defns idefns added removed changed text print g =
     (let printPart = (getattr (cmdArgs g) wh = Some True);
          g1 = (if printPart then print [title h text] None g else g)
      in (case mapping_rows defns added removed changed g1 of
            (table, g2) \<Rightarrow>
              if printPart
              then printTable table
                     [\<lparr>indent = 2, justFn = rjust, fmtFn = yellow h\<rparr>,
                      \<lparr>indent = 0, justFn = ljust, fmtFn = green h\<rparr>,
                      \<lparr>indent = 0, justFn = nojust, fmtFn = red h\<rparr>,
                      TabFmt_default,
                      \<lparr>indent = 0, justFn = nojust, fmtFn = dim h\<rparr>]
                     print
                     (\<lambda>row txt. if row ! 2 \<noteq> ''  -  '' then txt else dim h txt) g2
              else g2))"

definition compare_maps ::
  "tui \<Rightarrow> ('e \<Rightarrow> int \<Rightarrow> string) \<Rightarrow> part \<Rightarrow> ('e \<times> string) list \<Rightarrow> int \<Rightarrow>
   ('e \<times> string) list \<Rightarrow> int \<Rightarrow> Print \<Rightarrow> globals \<Rightarrow> globals" where
  "compare_maps h human_repr wh final final_kitty_mod initial initial_kitty_mod print g =
     (let ei = rekey human_repr initial_kitty_mod initial;
          ef = rekey human_repr final_kitty_mod final;
          added = added_keys ef ei;
          removed = removed_keys ef ei;
          changed = changed_keys ef ei
      in (case (if wh = Keys
                then link ''https://sw.kovidgoyal.net/kitty/conf/#keyboard-shortcuts''
                       ''keyboard shortcuts'' g
                else link ''https://sw.kovidgoyal.net/kitty/conf/#mouse-actions''
                       ''mouse actions'' g) of
            (which, g1) \<Rightarrow>
              print_mapping_changes h wh (dict_of_items (ei @ ef)) ei added removed changed
                (what (cmdArgs g1) @ '' '' @ which @ '':'') print g1))"

text \<open>
  The print function of \<^verbatim>\<open>debug_config\<close>:
  \<^verbatim>\<open>p = partial(print, file=out, end=eolnl())\<close>. The default \<^verbatim>\<open>end\<close> is computed once,
  when \<open>p\<close> is made.
\<close>

definition p_print :: "string \<Rightarrow> Print" where
  "p_print eol args end' g =
     g\<lparr>out := out g @ join '' '' args @ (case end' of None \<Rightarrow> eol | Some e \<Rightarrow> e)\<rparr>"

text \<open>
  The triggers of the loop that are in none of the three sets get the blank flag: they
  are the unchanged ones. The loop runs over the keys of
  \<^verbatim>\<open>dict(list(ei.items()) + list(ef.items()))\<close>.
\<close>

definition unchanged_keys :: "(string \<times> string) list \<Rightarrow> (string \<times> string) list \<Rightarrow> string set" where
  "unchanged_keys ef ei =
     set (map fst (dict_of_items (ei @ ef))) - added_keys ef ei - removed_keys ef ei
       - changed_keys ef ei"

section \<open>Exceptions, files and the issue data\<close>

text \<open>
  The exception classes the handlers of the source tell apart; each stands for the class
  with its subclasses, and \<open>OtherException\<close> for any other subclass of
  \<^verbatim>\<open>Exception\<close>. \<^verbatim>\<open>except Exception\<close> catches all four.
\<close>

datatype exn = OSError | RuntimeError | ValueError | OtherException

text \<open>
  What the report finds at a path: nothing (\<^verbatim>\<open>os.path.exists\<close> is false), a file that
  \<^verbatim>\<open>open\<close> refuses with an exception, or a file with its decoded text.
\<close>

datatype file_state = Missing | Unreadable exn | Readable string

text \<open>
  The probes made by \<^verbatim>\<open>IssueData.__init__\<close>, each with its result or the exception
  it raises: \<^verbatim>\<open>os.uname()\<close>, \<^verbatim>\<open>socket.gethostname()\<close>, the two \<^verbatim>\<open>time.strftime\<close>
  texts, \<^verbatim>\<open>os.ctermid()\<close>, \<^verbatim>\<open>sys.stdin.isatty()\<close>,
  \<^verbatim>\<open>termios.tcgetattr(sys.stdin.fileno())[5]\<close> and \<^verbatim>\<open>num_users()\<close>.
\<close>

record probes =
  os_uname :: "string \<times> string \<times> string \<times> string \<times> string"
  gethostname :: "exn + string"
  strftime_date :: string
  strftime_time :: string
  ctermid :: "exn + string"
  stdin_isatty :: bool
  tcgetattr_ospeed :: "exn + int"
  num_users_probe :: "exn + int"

record IssueData =
  uname_s :: string
  uname_n :: string
  uname_r :: string
  uname_v :: string
  uname_m :: string
  hostname :: string
  formatted_time :: string
  formatted_date :: string
  tty_name :: string
  baud_rate :: int
  num_users :: int

text \<open>
  \<^verbatim>\<open>re.sub(r'^/dev/([^/]+)/([^/]+)$', r'\1\2', raw)\<close>: a path \<^verbatim>\<open>/dev/X/Y\<close> with \<open>X\<close> and
  \<open>Y\<close> non-empty and free of slashes becomes \<open>XY\<close>; anything else is unchanged.
\<close>

definition format_tty_name :: "string \<Rightarrow> string" where
  "format_tty_name raw =
     (let rest = drop 5 raw;
          x = takeWhile (\<lambda>c. c \<noteq> CHR ''/'') rest;
          y = drop (Suc (length x)) rest
      in if take 5 raw = ''/dev/'' \<and> x \<noteq> [] \<and> length x < length rest \<and> y \<noteq> [] \<and>
            CHR ''/'' \<notin> set y
         then x @ y else raw)"

definition IssueData_init :: "probes \<Rightarrow> exn + IssueData" where
  "IssueData_init pr =
     (case os_uname pr of
        (s, n, r, v, m) \<Rightarrow>
          let host = (case gethostname pr of Inl e \<Rightarrow> ''localhost'' | Inr h \<Rightarrow> h)
          in (case (case ctermid pr of
                      Inr raw \<Rightarrow> Inr (format_tty_name raw)
                    | Inl OSError \<Rightarrow> Inr ''(none)''
                    | Inl e \<Rightarrow> Inl e) of
                Inl e \<Rightarrow> Inl e
              | Inr tty \<Rightarrow>
                  (case (if stdin_isatty pr
                         then (case tcgetattr_ospeed pr of
                                 Inr b \<Rightarrow> Inr b
                               | Inl OSError \<Rightarrow> Inr 0
                               | Inl e \<Rightarrow> Inl e)
                         else Inr 0) of
                     Inl e \<Rightarrow> Inl e
                   | Inr baud \<Rightarrow>
                       (case (case num_users_probe pr of
                                Inr u \<Rightarrow> Inr u
                              | Inl RuntimeError \<Rightarrow> Inr (- 1)
                              | Inl e \<Rightarrow> Inl e) of
                          Inl e \<Rightarrow> Inl e
                        | Inr users \<Rightarrow>
                            Inr \<lparr>uname_s = s, uname_n = n, uname_r = r, uname_v = v,
                                 uname_m = m, hostname = host,
                                 formatted_time = strftime_date pr,
                                 formatted_date = strftime_time pr,
                                 tty_name = tty, baud_rate = baud, num_users = users\<rparr>))))"

text \<open>
  \<^verbatim>\<open>translate_issue_char\<close>: the attributes with a one-character name are
  \<open>s n r v m o d t l b u U\<close>; any other character raises \<^verbatim>\<open>AttributeError\<close> inside and
  is returned as it is.
\<close>

definition translate_issue_char :: "IssueData \<Rightarrow> char \<Rightarrow> string" where
  "translate_issue_char d c =
     (if c = CHR ''s'' then uname_s d
      else if c = CHR ''n'' then uname_n d
      else if c = CHR ''r'' then uname_r d
      else if c = CHR ''v'' then uname_v d
      else if c = CHR ''m'' then uname_m d
      else if c = CHR ''o'' then hostname d
      else if c = CHR ''d'' then formatted_time d
      else if c = CHR ''t'' then formatted_date d
      else if c = CHR ''l'' then tty_name d
      else if c = CHR ''b'' then str_int (baud_rate d)
      else if c = CHR ''u'' then str_int (num_users d)
      else if c = CHR ''U''
        then str_int (num_users d) @ '' user'' @ (if num_users d = 1 then [] else ''s'')
      else [c])"

text \<open>
  \<^verbatim>\<open>parse_issue_file\<close>: the loop over the characters of the file with the variable
  \<^verbatim>\<open>last_char\<close>; the result lists what the generator yields.
\<close>

fun parse_issue_file :: "IssueData \<Rightarrow> char option \<Rightarrow> string \<Rightarrow> string list" where
  "parse_issue_file d last_char [] = (case last_char of None \<Rightarrow> [] | Some c \<Rightarrow> [[c]])"
| "parse_issue_file d last_char (this_char # rest) =
     (if last_char = Some (CHR 0x5C)
      then translate_issue_char d this_char # parse_issue_file d None rest
      else (case last_char of None \<Rightarrow> [] | Some c \<Rightarrow> [[c]]) @
             parse_issue_file d (Some this_char) rest)"

text \<open>
  \<^verbatim>\<open>str.strip()\<close>: the white space of Python among the characters below 256.
\<close>

definition py_isspace :: "char \<Rightarrow> bool" where
  "py_isspace c \<longleftrightarrow>
     (let n = (of_char c :: nat)
      in (9 \<le> n \<and> n \<le> 13) \<or> (28 \<le> n \<and> n \<le> 32) \<or> n = 133 \<or> n = 160)"

definition strip :: "string \<Rightarrow> string" where
  "strip s = rev (dropWhile py_isspace (rev (dropWhile py_isspace s)))"

section \<open>The host\<close>

text \<open>
  An option value as this module reads it. A dict value carries its items in the order of
  \<^verbatim>\<open>sorted(val)\<close>: for \<^verbatim>\<open>symbol_map\<close> the two ends of the code point range with
  \<^verbatim>\<open>val[k]\<close>, for \<^verbatim>\<open>modify_font\<close> the text of \<^verbatim>\<open>val[k]\<close>, for any other dict the text
  of \<^verbatim>\<open>pformat(val)\<close>. A colour carries \<^verbatim>\<open>color_as_sharp(val)\<close> and the swatch
  \<^verbatim>\<open>styled('  ', bg=val)\<close>, any other value \<^verbatim>\<open>str(val)\<close>. The host types
  \<^verbatim>\<open>symbol_map\<close> and \<^verbatim>\<open>modify_font\<close> as the first two.
\<close>

datatype optval =
    SymbolMapVal "((nat \<times> nat) \<times> string) list"
  | FontModVal "string list"
  | DictVal string
  | ColorVal string string
  | OtherVal string

fun is_dict :: "optval \<Rightarrow> bool" where
  "is_dict (SymbolMapVal es) = True"
| "is_dict (FontModVal es) = True"
| "is_dict (DictVal s) = True"
| "is_dict v = False"

text \<open>
  Everything the report reads from the host application and the operating system. The
  trigger types \<^verbatim>\<open>SingleKey\<close> and \<^verbatim>\<open>MouseEvent\<close> are type parameters; a
  \<^verbatim>\<open>Shortcut\<close> is a tuple of single keys. \<open>opt_differs f\<close> is
  \<^verbatim>\<open>getattr(opts, f) != getattr(defaults, f)\<close>, \<open>str_default f\<close> is
  \<^verbatim>\<open>str(getattr(defaults, f))\<close>, and \<open>getActions\<close> is the list the function of that name
  collects by inspecting the host's classes.
\<close>

record ('sk, 'me) host =
  ui :: tui
  version :: string
  probe :: probes
  is_macos :: bool
  sw_vers :: "exn + string list"
  etc_issue :: file_state
  etc_lsb_release :: file_state
  is_wayland :: bool
  frozen :: bool
  kitty_exe :: string
  kitty_base_dir :: string
  extensions_dir :: string
  shell_path :: string
  config_paths :: "string list"
  config_overrides :: "string list"
  defaults_fields :: "string list"
  default_opts_fields :: "string list"
  opts_value :: "string \<Rightarrow> optval"
  opt_differs :: "string \<Rightarrow> bool"
  str_default :: "string \<Rightarrow> string"
  kitty_mod_names :: "string list"
  opts_kitty_mod :: int
  default_kitty_mod :: int
  opts_mousemap :: "('me \<times> string) list"
  default_mousemap :: "('me \<times> string) list"
  opts_keymap :: "('sk \<times> string) list"
  default_keymap :: "('sk \<times> string) list"
  opts_sequence_map :: "('sk \<times> ('sk list \<times> string) list) list"
  default_sequence_map :: "('sk \<times> ('sk list \<times> string) list) list"
  mouse_repr :: "'me \<Rightarrow> int \<Rightarrow> string"
  shortcut_repr :: "'sk list \<Rightarrow> int \<Rightarrow> string"
  environ :: "(string \<times> string) list"
  getActions :: "(string \<times> string \<times> string) list"

section \<open>The option differ\<close>

definition flatten_sequence_map ::
  "('sk \<times> ('sk list \<times> string) list) list \<Rightarrow> ('sk list \<times> string) list" where
  "flatten_sequence_map m =
     fold (\<lambda>(key_spec, rest_map) ans.
             fold (\<lambda>(r, action). AList.update (key_spec # r) action) rest_map ans) m []"

text \<open>\<^verbatim>\<open>{:04x}\<close>: lower-case hexadecimal, padded with zeros to four digits.\<close>

definition hex_digit :: "nat \<Rightarrow> char" where
  "hex_digit d = (if d < 10 then char_of (48 + d) else char_of (87 + d))"

function hex_nat :: "nat \<Rightarrow> string" where
  "hex_nat n = (if n < 16 then [hex_digit n] else hex_nat (n div 16) @ [hex_digit (n mod 16)])"
  by pat_completeness auto
termination
  by (relation "measure id") auto

declare hex_nat.simps [simp del]

definition hex04 :: "nat \<Rightarrow> string" where
  "hex04 n = replicate (4 - length (hex_nat n)) CHR ''0'' @ hex_nat n"

text \<open>
  The line of one \<^verbatim>\<open>symbol_map\<close> entry. The arrow of the source is one code point beyond
  the characters of \<open>string\<close>; it stands here as the three bytes of its UTF-8 encoding.
\<close>

definition symbol_map_line :: "(nat \<times> nat) \<times> string \<Rightarrow> string" where
  "symbol_map_line e =
     (case e of
        ((lo, hi), v) \<Rightarrow>
          ''          U+'' @ hex04 lo @ '' - U+'' @ hex04 hi @ '' '' @
          [CHR 0xE2, CHR 0x86, CHR 0x92] @ '' '' @ v)"

text \<open>
  One turn of the loop of \<^verbatim>\<open>compare_opts\<close> over the option \<open>f\<close>; the state and the list
  \<^verbatim>\<open>colors\<close> go in and come out.
\<close>

definition compare_opt ::
  "('sk, 'me) host \<Rightarrow> Print \<Rightarrow> string list \<Rightarrow> int \<Rightarrow> string \<Rightarrow>
   globals \<times> string list \<Rightarrow> globals \<times> string list" where
  "compare_opt h printConfig changed_opts field_len f gc =
     (case gc of
        (g, cols) \<Rightarrow>
          let ischanged = f \<in> set changed_opts;
              flags = red (ui h) (if ischanged then ''  C  '' else ''     '');
              val = opts_value h f
          in if is_dict val
             then (case linkConfig f g of
                     (l, g1) \<Rightarrow>
                       let g2 = printConfig [flags, title (ui h) (l @ '':'')] (Some '' '') g1
                       in if f = ''symbol_map''
                          then (fold (\<lambda>e. printConfig [symbol_map_line e] None)
                                  (case val of SymbolMapVal es \<Rightarrow> es | _ \<Rightarrow> [])
                                  (printConfig [] None g2), cols)
                          else if f = ''modify_font''
                          then (fold (\<lambda>v. printConfig [''          '', v] None)
                                  (case val of FontModVal vs \<Rightarrow> vs | _ \<Rightarrow> [])
                                  (printConfig [] None g2), cols)
                          else (printConfig [case val of DictVal s \<Rightarrow> s | _ \<Rightarrow> []] None g2,
                                cols))
             else (case val of
                     ColorVal sharp swatch \<Rightarrow>
                       (g, cols @ [flags @ '' '' @
                          yellow (ui h) (f @ spaces (field_len - int (length f))) @
                          '' '' @ sharp @ '' '' @ swatch])
                   | _ \<Rightarrow>
                       (case formatConf field_len f g of
                          (c, g1) \<Rightarrow>
                            let g2 = (if f = ''kitty_mod''
                                      then printConfig [flags, yellow (ui h) c,
                                             join ''+'' (kitty_mod_names h)] (Some []) g1
                                      else printConfig [flags, yellow (ui h) c,
                                             (case val of OtherVal s \<Rightarrow> s | _ \<Rightarrow> [])]
                                             (Some []) g1)
                            in (printConfig
                                  [if ischanged
                                   then dim (ui h)
                                          (''  '' @ [CHR 0x09] @ ''('' @ str_default h f @ '')'')
                                   else []] None g2, cols))))"

text \<open>
  \<^verbatim>\<open>field_len = max(map(len, cmp_opts)) if default_opts else 20\<close>: the options object is
  true when it has a field, and \<^verbatim>\<open>max\<close> of nothing raises \<^verbatim>\<open>ValueError\<close>.
\<close>

definition compare_opts :: "('sk, 'me) host \<Rightarrow> Print \<Rightarrow> globals \<Rightarrow> exn + globals" where
  "compare_opts h print g =
     (let printConfig = (if config (cmdArgs g) = Some True then print else (\<lambda>args e s. s))
      in (case link ''https://sw.kovidgoyal.net/kitty/conf/''
                 (what (cmdArgs g) @ '' config options:'') g of
            (l, g1) \<Rightarrow>
              let g2 = printConfig [l] None g1;
                  ignored = [''keymap'', ''sequence_map'', ''mousemap'', ''map'', ''mouse_map''];
                  changed_opts = filter (\<lambda>f. f \<notin> set ignored \<and> opt_differs h f)
                                   (sort (defaults_fields h));
                  cmp_opts = (if diff (cmdArgs g2) then changed_opts else default_opts_fields h)
              in if default_opts_fields h \<noteq> [] \<and> cmp_opts = [] then Inl ValueError
                 else
                   let field_len = (if default_opts_fields h \<noteq> []
                                    then Max (set (map (\<lambda>f. int (length f)) cmp_opts)) else 20)
                   in (case fold (compare_opt h printConfig changed_opts field_len) cmp_opts
                              (g2, []) of
                         (g3, cols) \<Rightarrow>
                           let g4 = compare_maps (ui h) (mouse_repr h) Mouse (opts_mousemap h)
                                      (opts_kitty_mod h) (default_mousemap h)
                                      (default_kitty_mod h) print g3;
                               final = fold (\<lambda>(k, v). AList.update k v)
                                         (flatten_sequence_map (opts_sequence_map h))
                                         (dict_of_items (map (\<lambda>(k, v). ([k], v)) (opts_keymap h)));
                               initial = fold (\<lambda>(k, v). AList.update k v)
                                           (flatten_sequence_map (default_sequence_map h))
                                           (dict_of_items
                                              (map (\<lambda>(k, v). ([k], v)) (default_keymap h)));
                               g5 = compare_maps (ui h) (shortcut_repr h) Keys final
                                      (opts_kitty_mod h) initial (default_kitty_mod h) print g4
                           in Inr (if colors (cmdArgs g5) = Some True \<and> cols \<noteq> []
                                   then print [join [CHR 0x0A] (sort cols)] None
                                          (print [title (ui h) (what (cmdArgs g5) @ '' colors'')
                                                    @ '':''] None g5)
                                   else g5))))"

section \<open>The actions report\<close>

text \<open>
  The inner loop over the simple bindings of an action, with its counter \<open>i\<close>: four
  bindings to a line.
\<close>

definition print_simple ::
  "tui \<Rightarrow> Print \<Rightarrow> string \<times> string \<Rightarrow> nat \<times> globals \<Rightarrow> nat \<times> globals" where
  "print_simple u print kv ig =
     (case ig of
        (i, g) \<Rightarrow>
          let g1 = (if i \<noteq> 0 \<and> i mod 4 = 0
                    then print [[CHR 0x0A] @ ''       ''] (Some []) g else g)
          in (i + 1,
              print [''   '', yellow u (fst (shortcutSplit (fst kv))) @
                              green u (snd (shortcutSplit (fst kv)))] (Some []) g1))"

text \<open>
  The rows \<^verbatim>\<open>[(*shortcutSplit(k), formatAction(0, v)) for k, v in a2kcomposite]\<close>, built
  left to right.
\<close>

fun composite_rows :: "(string \<times> string) list \<Rightarrow> globals \<Rightarrow> string list list \<times> globals" where
  "composite_rows [] g = ([], g)"
| "composite_rows ((k, v) # kvs) g =
     (case formatAction 0 v g of
        (t, g1) \<Rightarrow>
          (case composite_rows kvs g1 of
             (rows, g2) \<Rightarrow> ([fst (shortcutSplit k), snd (shortcutSplit k), t] # rows, g2)))"

text \<open>One turn of the loop of \<^verbatim>\<open>printActions\<close> over a row of the actions table.\<close>

definition print_action :: "tui \<Rightarrow> Print \<Rightarrow> string list \<times> string \<Rightarrow> globals \<Rightarrow> globals" where
  "print_action u print rt g =
     (case rt of
        (row, rowTxt) \<Rightarrow>
          let g1 = (if empty' (cmdArgs g) then print [rowTxt] None g else g);
              a = sub_space_tail (row ! 1)
          in (case map_of (action2key g1) a of
                None \<Rightarrow> g1
              | Some kvs \<Rightarrow>
                  let g2 = (if \<not> empty' (cmdArgs g1) then print [rowTxt] None g1 else g1);
                      a2ksorted = map snd (sort (map (\<lambda>(k, v). ((v, shortcutSortKey k), (k, v))) kvs));
                      a2ksimple = filter (\<lambda>v. snd v = a) a2ksorted;
                      a2kcomposite = filter (\<lambda>v. snd v \<noteq> a) a2ksorted;
                      g3 = (if length a2ksimple > 0
                            then print [] None
                                   (snd (fold (print_simple u print) a2ksimple
                                           (0, print [''       ''] (Some []) g2)))
                            else g2)
                  in (case composite_rows a2kcomposite g3 of
                        (rows, g4) \<Rightarrow>
                          printTable rows
                            [\<lparr>indent = 10, justFn = rjust, fmtFn = yellow u\<rparr>,
                             \<lparr>indent = 0, justFn = ljust, fmtFn = green u\<rparr>,
                             \<lparr>indent = 3, justFn = nojust, fmtFn = nofmt\<rparr>]
                            print (\<lambda>row txt. txt) g4)))"

definition printActions :: "('sk, 'me) host \<Rightarrow> Print \<Rightarrow> globals \<Rightarrow> globals" where
  "printActions h print g =
     (case formatTable (map (\<lambda>(grp, action, desc). [grp, action, desc]) (getActions h))
             [\<lparr>indent = 0, justFn = ljust, fmtFn = blue (ui h)\<rparr>,
              \<lparr>indent = 2, justFn = formatAction, fmtFn = nofmt\<rparr>,
              \<lparr>indent = 3, justFn = nojust, fmtFn = dim (ui h)\<rparr>] g of
        (actionsTable, g1) \<Rightarrow> fold (print_action (ui h) print) actionsTable g1)"

section \<open>The report assembler\<close>

text \<open>
  The info section of \<^verbatim>\<open>debug_config\<close>. An exception of \<^verbatim>\<open>IssueData()\<close> is passed
  over; \<^verbatim>\<open>open\<close> stands outside every handler, for both files.
\<close>

definition info_issue :: "('sk, 'me) host \<Rightarrow> Print \<Rightarrow> globals \<Rightarrow> exn + globals" where
  "info_issue h p g =
     (if etc_issue h \<noteq> Missing
      then (case IssueData_init (probe h) of
              Inl e \<Rightarrow> Inr g
            | Inr idata \<Rightarrow>
                (case etc_issue h of
                   Readable txt \<Rightarrow> Inr (p [] (Some (concat (parse_issue_file idata None txt))) g)
                 | Unreadable e \<Rightarrow> Inl e
                 | Missing \<Rightarrow> Inr g))
      else Inr g)"

definition info_lsb_release :: "('sk, 'me) host \<Rightarrow> Print \<Rightarrow> globals \<Rightarrow> exn + globals" where
  "info_lsb_release h p g =
     (case etc_lsb_release h of
        Missing \<Rightarrow> Inr g
      | Unreadable e \<Rightarrow> Inl e
      | Readable txt \<Rightarrow> Inr (p [strip txt] None g))"

definition info_rest :: "('sk, 'me) host \<Rightarrow> Print \<Rightarrow> globals \<Rightarrow> globals" where
  "info_rest h p g =
     (let g1 = (if \<not> is_macos h
                then p [''Running under:'',
                        green (ui h) (if is_wayland h then ''Wayland'' else ''X11'')] None g
                else g);
          g2 = p [green (ui h) ''Frozen:'', if frozen h then ''True'' else ''False''] None g1;
          g3 = p [green (ui h) ''Paths:''] None g2;
          g4 = p [yellow (ui h) ''  kitty:'', kitty_exe h] None g3;
          g5 = p [yellow (ui h) ''  base dir:'', kitty_base_dir h] None g4;
          g6 = p [yellow (ui h) ''  extensions dir:'', extensions_dir h] None g5;
          g7 = p [yellow (ui h) ''  system shell:'', shell_path h] None g6;
          g8 = (if config_paths h \<noteq> []
                then p ['' '', join ([CHR 0x0A] @ ''  '') (config_paths h)] None
                       (p [green (ui h) ''Loaded config files:''] None g7)
                else g7);
          g9 = (if config_overrides h \<noteq> []
                then p ['' '', join ([CHR 0x0A] @ ''  '') (config_overrides h)] None
                       (p [green (ui h) ''Loaded config overrides:''] None g8)
                else g8)
      in p [] None g9)"

definition info_section :: "('sk, 'me) host \<Rightarrow> Print \<Rightarrow> globals \<Rightarrow> exn + globals" where
  "info_section h p g =
     (if info (cmdArgs g) = Some True
      then (case os_uname (probe h) of
              (s, n, r, v, m) \<Rightarrow>
                let g1 = p [join '' '' [s, n, r, v, m]] None (p [version h] None g)
                in (case (if is_macos h
                          then (case sw_vers h of
                                  Inl e \<Rightarrow> Inl e
                                | Inr ls \<Rightarrow> Inr (p [strip (join ''  '' ls)] None g1))
                          else Inr g1) of
                      Inl e \<Rightarrow> Inl e
                    | Inr g2 \<Rightarrow>
                        (case info_issue h p g2 of
                           Inl e \<Rightarrow> Inl e
                         | Inr g3 \<Rightarrow>
                             (case info_lsb_release h p g3 of
                                Inl e \<Rightarrow> Inl e
                              | Inr g4 \<Rightarrow> Inr (info_rest h p g4)))))
      else Inr g)"

definition envVars :: "string list" where
  "envVars = [''PATH'', ''LANG'', ''KITTY_CONFIG_DIRECTORY'', ''KITTY_CACHE_DIRECTORY'',
     ''VISUAL'', ''EDITOR'', ''SHELL'', ''GLFW_IM_MODULE'', ''KITTY_WAYLAND_DETECT_MODIFIERS'',
     ''DISPLAY'', ''WAYLAND_DISPLAY'', ''USER'', ''XCURSOR_SIZE'']"

definition env_section :: "('sk, 'me) host \<Rightarrow> Print \<Rightarrow> globals \<Rightarrow> globals" where
  "env_section h p g =
     (if env (cmdArgs g) = Some True
      then p [] None
             (printTable
                (map (\<lambda>(k, v). [k, v])
                   (filter (\<lambda>(k, v). prefix ''LC_'' k \<or> prefix ''XDG_'' k \<or> k \<in> set envVars)
                      (sort (environ h))))
                [\<lparr>indent = 6, justFn = ljust, fmtFn = yellow (ui h)\<rparr>,
                 \<lparr>indent = 3, justFn = nojust, fmtFn = nofmt\<rparr>]
                p (\<lambda>row txt. txt)
                (p [green (ui h) ''Important environment variables seen by the kitty process:'']
                   None g))
      else g)"

definition actions_section :: "('sk, 'me) host \<Rightarrow> Print \<Rightarrow> globals \<Rightarrow> globals" where
  "actions_section h p g =
     (if actions (cmdArgs g) = Some True
      then (case link ''https://sw.kovidgoyal.net/kitty/actions/''
                   (what (cmdArgs g) @ '' available actions:'') g of
              (l, g1) \<Rightarrow> printActions h p (p [green (ui h) l] None g1))
      else g)"

text \<open>
  \<^verbatim>\<open>re.sub(r'\x1b[^m]*m', '', s)\<close>: at an escape character with an \<open>m\<close> somewhere after
  it, everything up to and including the first such \<open>m\<close> goes; an escape character with no
  \<open>m\<close> after it matches nothing and stays.
\<close>

function strip_sgr :: "string \<Rightarrow> string" where
  "strip_sgr [] = []"
| "strip_sgr (c # cs) =
     (if c = CHR 0x1B \<and> CHR ''m'' \<in> set cs
      then strip_sgr (tl (dropWhile (\<lambda>x. x \<noteq> CHR ''m'') cs))
      else c # strip_sgr cs)"
  by pat_completeness auto
termination
proof (relation "measure length")
  show "wf (measure length)" by simp
next
  fix c :: char and cs :: string
  have "length (tl (dropWhile (\<lambda>x. x \<noteq> CHR ''m'') cs)) \<le> length cs"
    using length_dropWhile_le [of "\<lambda>x. x \<noteq> CHR ''m''" cs] by simp
  then show "(tl (dropWhile (\<lambda>x. x \<noteq> CHR ''m'') cs), c # cs) \<in> measure length"
    by simp
next
  fix c :: char and cs :: string
  show "(cs, c # cs) \<in> measure length" by simp
qed

text \<open>
  The text assembled in the buffer: the sections in order, each behind its gate, written
  through \<open>p\<close>. The buffer starts empty.
\<close>

definition assemble :: "('sk, 'me) host \<Rightarrow> globals \<Rightarrow> exn + globals" where
  "assemble h g =
     (let p = p_print (eolnl g)
      in (case info_section h p (g\<lparr>out := []\<rparr>) of
            Inl e \<Rightarrow> Inl e
          | Inr g1 \<Rightarrow>
              (case compare_opts h p g1 of
                 Inl e \<Rightarrow> Inl e
               | Inr g2 \<Rightarrow> Inr (actions_section h p (env_section h p (p [] None g2))))))"

definition debug_config :: "('sk, 'me) host \<Rightarrow> globals \<Rightarrow> exn + string \<times> globals" where
  "debug_config h g =
     (case assemble h g of
        Inl e \<Rightarrow> Inl e
      | Inr g' \<Rightarrow>
          Inr (if \<not> plain (cmdArgs g') then out g' else strip_sgr (out g'), g'))"

section \<open>A concrete host for the examples\<close>

text \<open>
  An instance of the host's styling: each colour wraps the text in the SGR sequence of
  its code and the reset of the foreground, and dimming in the sequences 2 and 22.
\<close>

definition sgr_code :: "string \<Rightarrow> bool \<Rightarrow> nat" where
  "sgr_code c intense =
     (if intense then 90 else 30) +
     (if c = ''red'' then 1 else if c = ''green'' then 2 else if c = ''yellow'' then 3
      else if c = ''blue'' then 4 else 7)"

definition ansi_tui :: tui where
  "ansi_tui =
     \<lparr>colored = (\<lambda>x c i. [CHR 0x1B] @ ''['' @ str_nat (sgr_code c i) @ ''m'' @ x @
                          [CHR 0x1B] @ ''[39m''),
      styled_dim = (\<lambda>x. [CHR 0x1B] @ ''[2m'' @ x @ [CHR 0x1B] @ ''[22m'')\<rparr>"

definition example_probes :: probes where
  "example_probes =
     \<lparr>os_uname = (''Linux'', ''box'', ''6.1.0'', ''#1 SMP'', ''x86_64''),
      gethostname = Inr ''box'',
      strftime_date = ''Mon Jan 01 2024'',
      strftime_time = ''10:00:00'',
      ctermid = Inr ''/dev/tty'',
      stdin_isatty = False,
      tcgetattr_ospeed = Inl OSError,
      num_users_probe = Inr 1\<rparr>"

text \<open>
  A host with one option at its default, one key binding and no key sequences, mouse
  bindings or actions; its triggers are their own human-readable form.
\<close>

definition example_host :: "(string, string) host" where
  "example_host =
     \<lparr>ui = ansi_tui,
      version = ''kitty 0.31.0'',
      probe = example_probes,
      is_macos = False,
      sw_vers = Inl OSError,
      etc_issue = Missing,
      etc_lsb_release = Missing,
      is_wayland = False,
      frozen = False,
      kitty_exe = ''/usr/bin/kitty'',
      kitty_base_dir = ''/usr/lib/kitty'',
      extensions_dir = ''/usr/lib/kitty/kitty'',
      shell_path = ''/bin/sh'',
      config_paths = [],
      config_overrides = [],
      defaults_fields = [''font_size''],
      default_opts_fields = [''font_size''],
      opts_value = (\<lambda>f. OtherVal ''11.0''),
      opt_differs = (\<lambda>f. False),
      str_default = (\<lambda>f. ''11.0''),
      kitty_mod_names = [''ctrl'', ''shift''],
      opts_kitty_mod = 5,
      default_kitty_mod = 5,
      opts_mousemap = [],
      default_mousemap = [],
      opts_keymap = [(''ctrl+a'', ''next_tab'')],
      default_keymap = [(''ctrl+a'', ''next_tab'')],
      opts_sequence_map = [],
      default_sequence_map = [],
      mouse_repr = (\<lambda>k m. k),
      shortcut_repr = (\<lambda>ks m. join '' > '' ks),
      environ = [],
      getActions = []\<rparr>"

section \<open>Notions for the properties of the report\<close>

text \<open>
  A print function and a justification function that leave the selection object as it is;
  a text with an escape character that no \<open>m\<close> follows; and two inputs of the examples:
  the state after \<^verbatim>\<open>--plain --env\<close>, and probes that all fail.
\<close>

definition print_keeps :: "Print \<Rightarrow> bool" where
  "print_keeps print \<longleftrightarrow> (\<forall>args e s. cmdArgs (print args e s) = cmdArgs s)"

definition just_keeps :: "JustFn \<Rightarrow> bool" where
  "just_keeps j \<longleftrightarrow> (\<forall>n s g. cmdArgs (snd (j n s g)) = cmdArgs g)"

fun open_esc :: "string \<Rightarrow> bool" where
  "open_esc [] = False"
| "open_esc (c # cs) = ((c = CHR 0x1B \<and> CHR ''m'' \<notin> set cs) \<or> open_esc cs)"

definition plain_env_globals :: globals where
  "plain_env_globals =
     init_globals\<lparr>cmdArgs := resolveParts (init_CmdArgs\<lparr>plain := True, env := Some True\<rparr>)\<rparr>"

definition failing_probes :: probes where
  "failing_probes =
     example_probes\<lparr>gethostname := Inl OSError, ctermid := Inl OSError, stdin_isatty := True,
       tcgetattr_ospeed := Inl OSError, num_users_probe := Inl RuntimeError\<rparr>"

section \<open>Properties of the selection state\<close>

lemma getattr_set_all_parts: "getattr (set_all_parts v a) p = v"
  by (cases p) (simp_all add: set_all_parts_def parts_def)

lemma getattr_set_none_parts:
  "getattr (set_none_parts v a) p = (case getattr a p of None \<Rightarrow> Some v | Some w \<Rightarrow> Some w)"
  by (cases p) (simp_all add: set_none_parts_def parts_def split: option.splits)

lemma set_none_parts_other:
  "diff (set_none_parts v a) = diff a" "plain (set_none_parts v a) = plain a"
  "links (set_none_parts v a) = links a" "empty' (set_none_parts v a) = empty' a"
  "deleted (set_none_parts v a) = deleted a" "sort' (set_none_parts v a) = sort' a"
  by (simp_all add: set_none_parts_def parts_def)

lemma set_all_parts_other:
  "diff (set_all_parts v a) = diff a" "plain (set_all_parts v a) = plain a"
  "links (set_all_parts v a) = links a" "empty' (set_all_parts v a) = empty' a"
  "deleted (set_all_parts v a) = deleted a" "sort' (set_all_parts v a) = sort' a"
  by (simp_all add: set_all_parts_def parts_def)

lemma set_none_parts_what: "what (set_none_parts v a) = what a"
  by (simp add: set_none_parts_def parts_def)

lemma set_all_parts_what: "what (set_all_parts v a) = what a"
  by (simp add: set_all_parts_def parts_def)

lemma part_exhaust_ex: "(\<exists>p. P p) \<longleftrightarrow> list_ex P parts"
proof -
  have "p \<in> set parts" for p
    by (cases p) (simp_all add: parts_def)
  then show ?thesis
    by (auto simp: list_ex_iff)
qed

lemma getattr_resolveParts:
  "getattr (resolveParts a) p =
     (if \<exists>q. getattr a q = Some True
        then (case getattr a p of None \<Rightarrow> Some False | Some w \<Rightarrow> Some w)
      else if \<exists>q. getattr a q = Some False
        then (case getattr a p of None \<Rightarrow> Some True | Some w \<Rightarrow> Some w)
      else Some True)"
proof -
  have ex: "list_ex (\<lambda>v. v = Some b) (map (getattr a) parts) \<longleftrightarrow> (\<exists>q. getattr a q = Some b)"
    for b
    unfolding part_exhaust_ex by (force simp: list_ex_iff)
  have keep: "getattr (b\<lparr>empty' := e\<rparr>) p = getattr b p"
    "getattr (b\<lparr>links := l\<rparr>) p = getattr b p"
    "getattr (b\<lparr>what := w\<rparr>) p = getattr b p" for b e l w
    by (cases p; simp)+
  show ?thesis
    unfolding resolveParts_def Let_def ex
    by (simp add: keep getattr_set_none_parts getattr_set_all_parts)
qed

lemma resolveParts_modes:
  "diff (resolveParts a) = diff a"
  "plain (resolveParts a) = plain a"
  "empty' (resolveParts a) = (empty' a \<and> \<not> diff a)"
  "links (resolveParts a) = (links a \<and> \<not> plain a)"
  "deleted (resolveParts a) = deleted a"
  "sort' (resolveParts a) = sort' a"
  "what (resolveParts a) = (if diff a then ''DIFF of'' else ''ALL'')"
  by (simp_all add: resolveParts_def Let_def set_none_parts_other set_all_parts_other)

text \<open>
  Claim C3. Resolution of the seven tri-state part flags: when some part is explicitly
  true, every unset part becomes false; otherwise, when some part is explicitly false,
  every unset part becomes true; when all seven are unset, every part becomes true.
  Moreover diff mode turns the empty-action flag off and plain mode turns the links flag
  off.
\<close>

theorem resolveParts_selection:
  "((\<exists>q. getattr a q = Some True) \<longrightarrow>
      (\<forall>p. getattr a p = None \<longrightarrow> getattr (resolveParts a) p = Some False)) \<and>
   (\<not> (\<exists>q. getattr a q = Some True) \<and> (\<exists>q. getattr a q = Some False) \<longrightarrow>
      (\<forall>p. getattr a p = None \<longrightarrow> getattr (resolveParts a) p = Some True)) \<and>
   ((\<forall>q. getattr a q = None) \<longrightarrow> (\<forall>p. getattr (resolveParts a) p = Some True)) \<and>
   (diff a \<longrightarrow> \<not> empty' (resolveParts a)) \<and>
   (plain a \<longrightarrow> \<not> links (resolveParts a))"
  by (simp add: getattr_resolveParts resolveParts_modes)

theorem resolveParts_selection_witness:
  "getattr (resolveParts (init_CmdArgs\<lparr>keys := Some True\<rparr>)) Info = Some False \<and>
   getattr (resolveParts (init_CmdArgs\<lparr>colors := Some False\<rparr>)) Env = Some True \<and>
   getattr (resolveParts init_CmdArgs) Actions = Some True \<and>
   \<not> empty' (resolveParts (init_CmdArgs\<lparr>diff := True\<rparr>)) \<and>
   \<not> links (resolveParts (init_CmdArgs\<lparr>plain := True\<rparr>))"
proof -
  have ev: "getattr init_CmdArgs p = None" for p
    by (cases p) (simp_all add: init_CmdArgs_def defaults_def set_all_parts_def parts_def)
  have k: "getattr (init_CmdArgs\<lparr>keys := Some True\<rparr>) Keys = Some True"
    "getattr (init_CmdArgs\<lparr>keys := Some True\<rparr>) Info = None"
    using ev [of Info] by simp_all
  have c: "getattr (init_CmdArgs\<lparr>colors := Some False\<rparr>) Colors = Some False"
    "getattr (init_CmdArgs\<lparr>colors := Some False\<rparr>) Env = None"
    "\<And>q. getattr (init_CmdArgs\<lparr>colors := Some False\<rparr>) q \<noteq> Some True"
    subgoal by simp
    subgoal using ev [of Env] by simp
    subgoal for q using ev [of q] by (cases q) simp_all
    done
  from resolveParts_selection [of "init_CmdArgs\<lparr>keys := Some True\<rparr>"] k
  have 1: "getattr (resolveParts (init_CmdArgs\<lparr>keys := Some True\<rparr>)) Info = Some False"
    by blast
  from resolveParts_selection [of "init_CmdArgs\<lparr>colors := Some False\<rparr>"] c
  have 2: "getattr (resolveParts (init_CmdArgs\<lparr>colors := Some False\<rparr>)) Env = Some True"
    by blast
  from resolveParts_selection [of init_CmdArgs] ev
  have 3: "getattr (resolveParts init_CmdArgs) Actions = Some True"
    by blast
  from resolveParts_selection [of "init_CmdArgs\<lparr>diff := True\<rparr>"]
  have 4: "\<not> empty' (resolveParts (init_CmdArgs\<lparr>diff := True\<rparr>))"
    by simp
  from resolveParts_selection [of "init_CmdArgs\<lparr>plain := True\<rparr>"]
  have 5: "\<not> links (resolveParts (init_CmdArgs\<lparr>plain := True\<rparr>))"
    by simp
  from 1 2 3 4 5 show ?thesis by blast
qed

text \<open>
  Claim C7. Resolution is total and idempotent: after one resolution no part flag is
  unset, and resolving an already resolved state changes nothing.
\<close>

theorem resolveParts_total_idempotent:
  "(\<forall>p. getattr (resolveParts a) p = Some True \<or> getattr (resolveParts a) p = Some False) \<and>
   resolveParts (resolveParts a) = resolveParts a"
proof
  show tot: "\<forall>p. getattr (resolveParts a) p = Some True \<or> getattr (resolveParts a) p = Some False"
    by (auto simp: getattr_resolveParts split: option.splits)
  define r where "r = resolveParts a"
  have some: "getattr r p \<noteq> None" for p
    using tot unfolding r_def by (metis option.distinct(1))
  have same: "getattr (resolveParts r) p = getattr r p" for p
  proof -
    obtain w where w: "getattr r p = Some w"
      using some [of p] by auto
    show ?thesis
      unfolding getattr_resolveParts [of r p] using w by (cases w) auto
  qed
  have "resolveParts r = r"
  proof (rule CmdArgs.equality)
    show "info (resolveParts r) = info r" using same [of Info] by simp
    show "config (resolveParts r) = config r" using same [of Config] by simp
    show "mouse (resolveParts r) = mouse r" using same [of Mouse] by simp
    show "keys (resolveParts r) = keys r" using same [of Keys] by simp
    show "colors (resolveParts r) = colors r" using same [of Colors] by simp
    show "env (resolveParts r) = env r" using same [of Env] by simp
    show "actions (resolveParts r) = actions r" using same [of Actions] by simp
    show "empty' (resolveParts r) = empty' r"
      unfolding r_def by (auto simp: resolveParts_modes)
    show "links (resolveParts r) = links r"
      unfolding r_def by (auto simp: resolveParts_modes)
    show "what (resolveParts r) = what r"
      unfolding r_def by (simp add: resolveParts_modes)
  qed (simp_all add: resolveParts_modes)
  then show "resolveParts (resolveParts a) = resolveParts a"
    by (simp add: r_def)
qed

theorem resolveParts_total_idempotent_witness:
  "(getattr (resolveParts (init_CmdArgs\<lparr>mouse := Some False\<rparr>)) Mouse = Some True \<or>
    getattr (resolveParts (init_CmdArgs\<lparr>mouse := Some False\<rparr>)) Mouse = Some False) \<and>
   resolveParts (resolveParts (init_CmdArgs\<lparr>mouse := Some False\<rparr>)) =
     resolveParts (init_CmdArgs\<lparr>mouse := Some False\<rparr>)"
  using resolveParts_total_idempotent [of "init_CmdArgs\<lparr>mouse := Some False\<rparr>"]
  by blast

text \<open>
  Claim C8. Setting the debug meta-flag to true turns diff mode on, turns the
  empty-action display off, and sets every part flag to true except the actions part,
  which is set to false.
\<close>

theorem set_debug_config_True:
  "diff (set_debug_config (Some True) a) \<and>
   \<not> empty' (set_debug_config (Some True) a) \<and>
   getattr (set_debug_config (Some True) a) Info = Some True \<and>
   getattr (set_debug_config (Some True) a) Config = Some True \<and>
   getattr (set_debug_config (Some True) a) Mouse = Some True \<and>
   getattr (set_debug_config (Some True) a) Keys = Some True \<and>
   getattr (set_debug_config (Some True) a) Colors = Some True \<and>
   getattr (set_debug_config (Some True) a) Env = Some True \<and>
   getattr (set_debug_config (Some True) a) Actions = Some False"
  by (simp add: set_debug_config_def set_all_parts_def parts_def)

section \<open>Properties of the splitters\<close>

lemma match_mods_append: "fst (match_mods s) @ snd (match_mods s) = s"
proof (induction s rule: match_mods.induct)
  case (1 s)
  show ?case
  proof (cases "dropWhile mod_char s")
    case Nil
    show ?thesis by (simp add: match_mods.simps [of s] Nil)
  next
    case (Cons c rest)
    show ?thesis
    proof (cases "c = CHR ''+'' \<and> takeWhile mod_char s \<noteq> []")
      case True
      have s: "s = takeWhile mod_char s @ c # rest"
        using Cons by (metis takeWhile_dropWhile_id)
      from 1 [OF Cons True] have ih: "fst (match_mods rest) @ snd (match_mods rest) = rest" .
      have "match_mods s =
          (takeWhile mod_char s @ [CHR ''+''] @ fst (match_mods rest), snd (match_mods rest))"
        by (simp add: match_mods.simps [of s] Cons True split: prod.splits)
      then show ?thesis
        using ih s True by simp
    next
      case False
      then show ?thesis using Cons by (auto simp: match_mods.simps [of s])
    qed
  qed
qed

text \<open>
  Claim C10. Splitting is lossless: the modifier prefix and the bare key returned by
  \<open>shortcutSplit\<close> concatenate back to the input, and so do the action name and the
  argument string returned by \<open>actionSplit\<close>.
\<close>

theorem split_lossless:
  "fst (shortcutSplit s) @ snd (shortcutSplit s) = s \<and>
   fst (actionSplit s) @ snd (actionSplit s) = s"
proof
  show "fst (shortcutSplit s) @ snd (shortcutSplit s) = s"
    using match_mods_append [of s]
    by (cases "match_mods s") (simp add: shortcutSplit_def)
  show "fst (actionSplit s) @ snd (actionSplit s) = s"
    by (simp add: actionSplit_def Let_def)
qed

theorem split_lossless_witness:
  "shortcutSplit ''ctrl+shift+a'' = (''ctrl+shift+'', ''a'') \<and>
   fst (shortcutSplit ''ctrl+shift+a'') @ snd (shortcutSplit ''ctrl+shift+a'') = ''ctrl+shift+a'' \<and>
   actionSplit ''goto_tab 3'' = (''goto_tab'', '' 3'') \<and>
   fst (actionSplit ''goto_tab 3'') @ snd (actionSplit ''goto_tab 3'') = ''goto_tab 3''"
proof -
  have 1: "shortcutSplit ''ctrl+shift+a'' = (''ctrl+shift+'', ''a'')"
    by code_simp
  have 2: "actionSplit ''goto_tab 3'' = (''goto_tab'', '' 3'')"
    by code_simp
  from 1 2 split_lossless [of "''ctrl+shift+a''"] split_lossless [of "''goto_tab 3''"]
  show ?thesis by blast
qed

section \<open>The key-centric order\<close>


lemma same_len_decides:
  fixes a b :: "'a::linorder list"
  assumes "length a = length b" "a \<noteq> b"
  shows "(a @ x \<le> b @ y) = (a < b)"
  using assms by (induction a b rule: list_induct2) (auto simp: Cons_le_Cons Cons_less_Cons)

lemma take5_sep:
  assumes "r \<noteq> []" "take 5 (r @ '' zzz '') = '' zzz ''"
  shows "sublist '' zzz'' r"
proof -
  obtain a r1 where r: "r = a # r1" using assms(1) by (cases r) auto
  show ?thesis
  proof (cases r1)
    case Nil then show ?thesis using assms(2) r by simp
  next
    case (Cons b r2)
    note c1 = this
    show ?thesis
    proof (cases r2)
      case Nil then show ?thesis using assms(2) r c1 by simp
    next
      case (Cons c r3)
      note c2 = this
      show ?thesis
      proof (cases r3)
        case Nil then show ?thesis using assms(2) r c1 c2 by simp
      next
        case (Cons d r4)
        with assms(2) r c1 c2 have "r = '' zzz'' @ r4" by simp
        then show ?thesis by (metis sublist_append_rightI)
      qed
    qed
  qed
qed

lemma sep_prefix:
  assumes "r \<noteq> []" "\<not> sublist '' zzz'' (v @ r)"
  shows "\<exists>a b. length a = length b \<and> a \<noteq> b \<and>
     (\<forall>m. prefix a ((v @ r) @ '' zzz '' @ m)) \<and> (\<forall>m. prefix b (v @ '' zzz '' @ m))"
proof -
  have nr: "\<not> sublist '' zzz'' r"
  proof
    assume "sublist '' zzz'' r"
    then obtain ps ss where "r = ps @ '' zzz'' @ ss" by (auto simp: sublist_def)
    then have "v @ r = (v @ ps) @ '' zzz'' @ ss" by simp
    then have "sublist '' zzz'' (v @ r)" unfolding sublist_def by blast
    with assms(2) show False by simp
  qed
  define t where "t = take 5 (r @ '' zzz '')"
  define d where "d = drop 5 (r @ '' zzz '')"
  have ne: "t \<noteq> '' zzz ''"
    using take5_sep [OF assms(1)] nr unfolding t_def by blast
  have lt: "length t = 5"
    by (simp add: t_def)
  have td: "r @ '' zzz '' = t @ d"
    unfolding t_def d_def by (rule append_take_drop_id [symmetric])
  have 1: "length (v @ t) = length (v @ '' zzz '')" using lt by simp
  have 2: "v @ t \<noteq> v @ '' zzz ''" using ne by simp
  have 3: "prefix (v @ t) ((v @ r) @ '' zzz '' @ m)" for m
  proof -
    have "(v @ r) @ '' zzz '' @ m = v @ (r @ '' zzz '') @ m" by simp
    also have "\<dots> = v @ (t @ d) @ m" by (simp only: td)
    finally have "(v @ r) @ '' zzz '' @ m = (v @ t) @ (d @ m)" by simp
    then show ?thesis by (simp only: prefixI)
  qed
  have 4: "prefix (v @ '' zzz '') (v @ '' zzz '' @ m)" for m
    by simp
  have "length (v @ t) = length (v @ '' zzz '') \<and> v @ t \<noteq> v @ '' zzz '' \<and>
     (\<forall>m. prefix (v @ t) ((v @ r) @ '' zzz '' @ m)) \<and>
     (\<forall>m. prefix (v @ '' zzz '') (v @ '' zzz '' @ m))"
    using 1 2 3 4 by (intro conjI allI)
  then show ?thesis by (intro exI)
qed

lemma sep_keys:
  assumes "u \<noteq> v" "\<not> sublist '' zzz'' u" "\<not> sublist '' zzz'' v"
  shows "\<exists>a b. length a = length b \<and> a \<noteq> b \<and>
     (\<forall>m. prefix a (u @ '' zzz '' @ m)) \<and> (\<forall>m. prefix b (v @ '' zzz '' @ m))"
proof (cases u v rule: prefix_cases)
  case 1
  then obtain r where r: "v = u @ r" unfolding prefix_def by blast
  with assms(1) have rn: "r \<noteq> []" by auto
  have "\<not> sublist '' zzz'' (u @ r)" using assms(3) r by simp
  from sep_prefix [OF rn this]
  obtain a b where ab: "length a = length b" "a \<noteq> b"
    "\<forall>m. prefix a ((u @ r) @ '' zzz '' @ m)" "\<forall>m. prefix b (u @ '' zzz '' @ m)"
    by blast
  have "length b = length a \<and> b \<noteq> a \<and>
     (\<forall>m. prefix b (u @ '' zzz '' @ m)) \<and> (\<forall>m. prefix a (v @ '' zzz '' @ m))"
    using ab r by simp
  then show ?thesis by (intro exI)
next
  case 2
  then obtain r where r: "u = v @ r" "r \<noteq> []"
    unfolding strict_prefix_def prefix_def by auto
  have "\<not> sublist '' zzz'' (v @ r)" using assms(2) r by simp
  from sep_prefix [OF r(2) this] show ?thesis unfolding r(1) .
next
  case 3
  then obtain as b bs c cs where d: "b \<noteq> c" "u = as @ b # bs" "v = as @ c # cs"
    using parallel_decomp [of u v] by blast
  have "length (as @ [b]) = length (as @ [c]) \<and> as @ [b] \<noteq> as @ [c] \<and>
     (\<forall>m. prefix (as @ [b]) (u @ '' zzz '' @ m)) \<and>
     (\<forall>m. prefix (as @ [c]) (v @ '' zzz '' @ m))"
    using d by simp
  then show ?thesis by (intro exI)
qed

lemma sort_key_between:
  assumes "\<not> sublist '' zzz'' u" "\<not> sublist '' zzz'' v"
    and "u @ '' zzz '' @ m1 \<le> v @ '' zzz '' @ m2" "v @ '' zzz '' @ m2 \<le> u @ '' zzz '' @ m3"
  shows "u = v"
proof (rule ccontr)
  assume "u \<noteq> v"
  from sep_keys [OF this assms(1,2)] obtain a b where ab: "length a = length b" "a \<noteq> b"
    and u: "\<And>m. prefix a (u @ '' zzz '' @ m)" and v: "\<And>m. prefix b (v @ '' zzz '' @ m)"
    by blast
  obtain x1 where x1: "u @ '' zzz '' @ m1 = a @ x1" using u [of m1] unfolding prefix_def by blast
  obtain x3 where x3: "u @ '' zzz '' @ m3 = a @ x3" using u [of m3] unfolding prefix_def by blast
  obtain y where y: "v @ '' zzz '' @ m2 = b @ y" using v [of m2] unfolding prefix_def by blast
  have "a @ x1 \<le> b @ y" using assms(3) by (simp only: x1 y)
  then have "a < b" using same_len_decides [OF ab] by simp
  moreover have "b @ y \<le> a @ x3" using assms(4) by (simp only: x3 y)
  then have "b < a" using same_len_decides [of b a] ab by simp
  ultimately show False by simp
qed

lemma sortKey_bare: "shortcutSortKey s = bare_key s @ '' zzz '' @ fst (shortcutSplit s)"
  by (cases "shortcutSplit s") (simp add: shortcutSortKey_def bare_key_def)

lemma sort_key_mono:
  fixes ps :: "(string \<times> string) list"
  assumes "sorted ps" "i < j" "j < length ps"
  shows "fst (ps ! i) \<le> fst (ps ! j)"
proof -
  have "ps ! i \<le> ps ! j"
    using assms by (simp add: sorted_nth_mono)
  then show ?thesis
    by (cases "ps ! i"; cases "ps ! j") auto
qed

text \<open>
  Claim C5, as amended. When no bare key of the collection contains the substring
  \<open>'' zzz''\<close>, the triggers sharing a bare key form one contiguous block of the sorted
  sequence: whenever two positions hold the same bare key, so does every position between
  them.
\<close>

theorem sorted_triggers_contiguous:
  assumes "\<forall>t \<in> set ts. \<not> sublist '' zzz'' (bare_key t)"
    and "i < j" "j < k" "k < length (sorted_triggers ts)"
    and "bare_key (sorted_triggers ts ! i) = bare_key (sorted_triggers ts ! k)"
  shows "bare_key (sorted_triggers ts ! j) = bare_key (sorted_triggers ts ! i)"
proof -
  define ps where "ps = sort (map (\<lambda>s. (shortcutSortKey s, s)) ts)"
  have st: "sorted_triggers ts = map snd ps"
    by (simp add: sorted_triggers_def ps_def)
  have len: "k < length ps" using assms(4) st by simp
  have srt: "sorted ps" by (simp add: ps_def)
  have el: "fst (ps ! n) = shortcutSortKey (snd (ps ! n)) \<and> snd (ps ! n) \<in> set ts"
    if "n < length ps" for n
  proof -
    have "ps ! n \<in> set ps" using that by (rule nth_mem)
    then have "ps ! n \<in> (\<lambda>s. (shortcutSortKey s, s)) ` set ts"
      by (simp add: ps_def)
    then show ?thesis by auto
  qed
  define ti where "ti = snd (ps ! i)"
  define tj where "tj = snd (ps ! j)"
  define tk where "tk = snd (ps ! k)"
  have li: "i < length ps" and lj: "j < length ps" using assms(2,3) len by simp_all
  have nth: "sorted_triggers ts ! i = ti" "sorted_triggers ts ! j = tj" "sorted_triggers ts ! k = tk"
    using li lj len by (simp_all add: st ti_def tj_def tk_def)
  have 1: "shortcutSortKey ti \<le> shortcutSortKey tj"
    using sort_key_mono [OF srt assms(2) lj] el [OF li] el [OF lj] by (simp add: ti_def tj_def)
  have 2: "shortcutSortKey tj \<le> shortcutSortKey tk"
    using sort_key_mono [OF srt assms(3) len] el [OF len] el [OF lj] by (simp add: tk_def tj_def)
  have 3: "\<not> sublist '' zzz'' (bare_key ti)" "\<not> sublist '' zzz'' (bare_key tj)"
    using el [OF li] el [OF lj] assms(1) by (simp_all add: ti_def tj_def)
  have 4: "bare_key ti = bare_key tk"
    using assms(5) by (simp only: nth)
  have "bare_key ti = bare_key tj"
  proof (rule sort_key_between [OF 3])
    show "bare_key ti @ '' zzz '' @ fst (shortcutSplit ti) \<le> bare_key tj @ '' zzz '' @ fst (shortcutSplit tj)"
      using 1 by (simp only: sortKey_bare)
    show "bare_key tj @ '' zzz '' @ fst (shortcutSplit tj) \<le> bare_key ti @ '' zzz '' @ fst (shortcutSplit tk)"
      using 2 by (simp only: sortKey_bare 4)
  qed
  then show ?thesis
    by (simp only: nth)
qed

theorem sorted_triggers_contiguous_witness:
  "sorted_triggers [''ctrl+a'', ''b'', ''a'', ''shift+a''] = [''a'', ''ctrl+a'', ''shift+a'', ''b''] \<and>
   bare_key (sorted_triggers [''ctrl+a'', ''b'', ''a'', ''shift+a''] ! 1) =
   bare_key (sorted_triggers [''ctrl+a'', ''b'', ''a'', ''shift+a''] ! 0)"
proof -
  let ?ts = "[''ctrl+a'', ''b'', ''a'', ''shift+a'']"
  have s: "sorted_triggers ?ts = [''a'', ''ctrl+a'', ''shift+a'', ''b'']"
    by code_simp
  have h1: "\<forall>t \<in> set ?ts. \<not> sublist '' zzz'' (bare_key t)"
    by code_simp
  have h2: "(0::nat) < 1" "(1::nat) < 2" "2 < length (sorted_triggers ?ts)"
    by (simp_all add: s)
  have h3: "bare_key (sorted_triggers ?ts ! 0) = bare_key (sorted_triggers ?ts ! 2)"
    unfolding s by code_simp
  from sorted_triggers_contiguous [OF h1 h2 h3] s show ?thesis
    by simp
qed

text \<open>
  Claim C5 as stated fails: a bare key may itself contain the separator of the sort key.
  The triggers \<open>a\<close> and \<open>ctrl+a\<close> share the bare key \<open>a\<close>, and the trigger
  \<open>a zzz a\<close>, whose bare key is itself, sorts between them.
\<close>

theorem sorted_triggers_not_contiguous:
  "sorted_triggers [''a'', ''ctrl+a'', ''a zzz a''] = [''a'', ''a zzz a'', ''ctrl+a''] \<and>
   bare_key ''a'' = ''a'' \<and> bare_key ''a zzz a'' = ''a zzz a'' \<and> bare_key ''ctrl+a'' = ''a''"
  by code_simp

section \<open>Properties of the table formatter\<close>

lemma formatCells_length: "length (fst (formatCells cs g)) = length cs"
proof (induction cs arbitrary: g)
  case Nil
  show ?case by simp
next
  case (Cons c cs)
  obtain x g1 where c: "formatCell c g = (x, g1)" by (cases "formatCell c g")
  obtain xs g2 where cs: "formatCells cs g1 = (xs, g2)" by (cases "formatCells cs g1")
  from Cons [of g1] cs have "length xs = length cs" by simp
  then show ?case by (simp add: c cs)
qed

lemma formatCell_plain:
  "formatCell (v, f, w) g = (restyle_cell f (fst (formatCell (v, f\<lparr>fmtFn := nofmt\<rparr>, w) g)),
     snd (formatCell (v, f\<lparr>fmtFn := nofmt\<rparr>, w) g))"
  by (cases "justFn f w v g") (simp add: formatCell_def restyle_cell_def nofmt_def spaces_def)

lemma formatCells_plain:
  "formatCells cs g =
     (map2 (\<lambda>c x0. restyle_cell (fst (snd c)) x0) cs (fst (formatCells (map plain_cell cs) g)),
      snd (formatCells (map plain_cell cs) g))"
proof (induction cs arbitrary: g)
  case Nil
  show ?case by simp
next
  case (Cons c cs)
  obtain v f w where c: "c = (v, f, w)" by (cases c)
  obtain x0 g1 where p: "formatCell (v, f\<lparr>fmtFn := nofmt\<rparr>, w) g = (x0, g1)"
    by (cases "formatCell (v, f\<lparr>fmtFn := nofmt\<rparr>, w) g")
  have s: "formatCell (v, f, w) g = (restyle_cell f x0, g1)"
    using formatCell_plain [of v f w g] p by simp
  obtain xs0 g2 where r: "formatCells (map plain_cell cs) g1 = (xs0, g2)"
    by (cases "formatCells (map plain_cell cs) g1")
  have ih: "formatCells cs g1 = (map2 (\<lambda>c x0. restyle_cell (fst (snd c)) x0) cs xs0, g2)"
    using Cons [of g1] r by simp
  have pc: "plain_cell (v, f, w) = (v, f\<lparr>fmtFn := nofmt\<rparr>, w)"
    by (simp add: plain_cell_def)
  show ?case
    by (simp add: c s ih p r pc)
qed

lemma zip_plain: "zip row (zip (plain_fmt fmt) ws) = map plain_cell (zip row (zip fmt ws))"
proof -
  have "zip (plain_fmt fmt) ws = map (\<lambda>(f, w). (f\<lparr>fmtFn := nofmt\<rparr>, w)) (zip fmt ws)"
    by (simp add: plain_fmt_def zip_map1)
  then have "zip row (zip (plain_fmt fmt) ws)
      = map (\<lambda>(v, fw). (v, (\<lambda>(f, w). (f\<lparr>fmtFn := nofmt\<rparr>, w)) fw)) (zip row (zip fmt ws))"
    by (simp add: zip_map2)
  also have "\<dots> = map plain_cell (zip row (zip fmt ws))"
    by (rule map_cong) (auto simp: plain_cell_def)
  finally show ?thesis .
qed

lemma formatRows_plain:
  "formatRows a fmt ws g =
     (map2 (\<lambda>row cells0. map2 (\<lambda>c x0. restyle_cell (fst (snd c)) x0) (zip row (zip fmt ws)) cells0)
        a (fst (formatRows a (plain_fmt fmt) ws g)),
      snd (formatRows a (plain_fmt fmt) ws g))"
proof (induction a arbitrary: g)
  case Nil
  show ?case by simp
next
  case (Cons row rows)
  obtain c0 g1 where p: "formatCells (zip row (zip (plain_fmt fmt) ws)) g = (c0, g1)"
    by (cases "formatCells (zip row (zip (plain_fmt fmt) ws)) g")
  have s: "formatCells (zip row (zip fmt ws)) g =
      (map2 (\<lambda>c x0. restyle_cell (fst (snd c)) x0) (zip row (zip fmt ws)) c0, g1)"
    using formatCells_plain [of "zip row (zip fmt ws)" g] p by (simp add: zip_plain)
  obtain r0 g2 where r: "formatRows rows (plain_fmt fmt) ws g1 = (r0, g2)"
    by (cases "formatRows rows (plain_fmt fmt) ws g1")
  show ?case
    using Cons [of g1] by (simp add: s p r)
qed

lemma formatRows_length: "length (fst (formatRows a fmt ws g)) = length a"
proof (induction a arbitrary: g)
  case Nil
  show ?case by simp
next
  case (Cons row rows)
  obtain c g1 where p: "formatCells (zip row (zip fmt ws)) g = (c, g1)"
    by (cases "formatCells (zip row (zip fmt ws)) g")
  obtain r g2 where r: "formatRows rows fmt ws g1 = (r, g2)"
    by (cases "formatRows rows fmt ws g1")
  from Cons [of g1] r show ?case by (simp add: p)
qed

lemma formatRows_nth_length:
  "i < length a \<Longrightarrow>
   length (fst (formatRows a fmt ws g) ! i) = min (length (a ! i)) (min (length fmt) (length ws))"
proof (induction a arbitrary: g i)
  case Nil
  then show ?case by simp
next
  case (Cons row rows)
  obtain c g1 where p: "formatCells (zip row (zip fmt ws)) g = (c, g1)"
    by (cases "formatCells (zip row (zip fmt ws)) g")
  obtain r g2 where r: "formatRows rows fmt ws g1 = (r, g2)"
    by (cases "formatRows rows fmt ws g1")
  have lc: "length c = min (length row) (min (length fmt) (length ws))"
    using formatCells_length [of "zip row (zip fmt ws)" g] p by simp
  show ?case
  proof (cases i)
    case 0
    then show ?thesis by (simp add: p r lc)
  next
    case (Suc n)
    with Cons.prems have "n < length rows" by simp
    from Cons.IH [OF this, of g1] r show ?thesis by (simp add: p Suc)
  qed
qed

lemma field_lens_rect:
  assumes "a \<noteq> []" "\<forall>row \<in> set a. length row = n"
  shows "field_lens a = map (\<lambda>j. Max ((\<lambda>row. int (length (row ! j))) ` set a)) [0..<n]"
proof -
  have "set (map length a) = {n}"
    using assms by (cases a) auto
  then have "Min (set (map length a)) = n"
    by simp
  then show ?thesis
    by (simp add: field_lens_def zip_star_def image_image)
qed

text \<open>
  Claim C4. An empty row list gives an empty result. For a non-empty rectangular list of
  rows with matching column formats, the width of each column is the maximum length of the
  raw cells of that column; the state after formatting does not depend on the style
  functions; and every formatted cell is its indentation followed by the style function
  applied to the unstyled cell, the one the identity style produces. So the unstyled
  text of a cell, and its length, is the same for every style function.
\<close>

theorem formatTable_widths:
  "formatTable [] fmt g = ([], g) \<and>
   (a \<noteq> [] \<and> (\<forall>row \<in> set a. length row = length fmt) \<longrightarrow>
      field_lens a = map (\<lambda>j. Max ((\<lambda>row. int (length (row ! j))) ` set a)) [0..<length fmt] \<and>
      fst (formatTable a fmt g) = zip a (map concat (fst (formatRows a fmt (field_lens a) g))) \<and>
      snd (formatRows a fmt (field_lens a) g) = snd (formatRows a (plain_fmt fmt) (field_lens a) g) \<and>
      (\<forall>i < length a. \<forall>j < length fmt.
         fst (formatRows a fmt (field_lens a) g) ! i ! j =
           spaces (indent (fmt ! j)) @
           fmtFn (fmt ! j)
             (drop (nat (indent (fmt ! j)))
                (fst (formatRows a (plain_fmt fmt) (field_lens a) g) ! i ! j))))"
proof (intro conjI impI)
  show "formatTable [] fmt g = ([], g)"
    by (simp add: formatTable_def)
next
  assume h: "a \<noteq> [] \<and> (\<forall>row \<in> set a. length row = length fmt)"
  then show w: "field_lens a = map (\<lambda>j. Max ((\<lambda>row. int (length (row ! j))) ` set a)) [0..<length fmt]"
    using field_lens_rect [of a "length fmt"] by blast
  show "fst (formatTable a fmt g) = zip a (map concat (fst (formatRows a fmt (field_lens a) g)))"
    using h by (cases "formatRows a fmt (field_lens a) g") (simp add: formatTable_def)
  show "snd (formatRows a fmt (field_lens a) g) = snd (formatRows a (plain_fmt fmt) (field_lens a) g)"
    using formatRows_plain [of a fmt "field_lens a" g] by simp
  show "\<forall>i < length a. \<forall>j < length fmt.
         fst (formatRows a fmt (field_lens a) g) ! i ! j =
           spaces (indent (fmt ! j)) @
           fmtFn (fmt ! j)
             (drop (nat (indent (fmt ! j)))
                (fst (formatRows a (plain_fmt fmt) (field_lens a) g) ! i ! j))"
  proof (intro allI impI)
    fix i j
    assume i: "i < length a" and j: "j < length fmt"
    let ?ws = "field_lens a"
    let ?P = "fst (formatRows a (plain_fmt fmt) ?ws g)"
    have lw: "length ?ws = length fmt" by (simp add: w)
    have lr: "length (a ! i) = length fmt" using h i by simp
    have lP: "length ?P = length a" by (rule formatRows_length)
    have lPi: "length (?P ! i) = length fmt"
      using formatRows_nth_length [OF i, of "plain_fmt fmt" ?ws g] lw lr
      by (simp add: plain_fmt_def)
    have "fst (formatRows a fmt ?ws g) ! i =
        map2 (\<lambda>c x0. restyle_cell (fst (snd c)) x0) (zip (a ! i) (zip fmt ?ws)) (?P ! i)"
      using formatRows_plain [of a fmt ?ws g] i lP by simp
    then have "fst (formatRows a fmt ?ws g) ! i ! j = restyle_cell (fmt ! j) (?P ! i ! j)"
      using j lw lr lPi by simp
    then show "fst (formatRows a fmt ?ws g) ! i ! j =
           spaces (indent (fmt ! j)) @
           fmtFn (fmt ! j) (drop (nat (indent (fmt ! j))) (?P ! i ! j))"
      by (simp add: restyle_cell_def)
  qed
qed

theorem formatTable_widths_witness:
  "field_lens [[''a'', ''bcd''], [''xyz'', ''q'']] = [3, 3] \<and>
   fst (formatRows [[''a'', ''bcd''], [''xyz'', ''q'']]
          [\<lparr>indent = 2, justFn = rjust, fmtFn = (\<lambda>x. ''<'' @ x @ ''>'')\<rparr>,
           \<lparr>indent = 1, justFn = ljust, fmtFn = nofmt\<rparr>]
          (field_lens [[''a'', ''bcd''], [''xyz'', ''q'']]) init_globals) ! 0 ! 0 =
     ''  <  a>''"
proof -
  let ?a = "[[''a'', ''bcd''], [''xyz'', ''q'']]"
  let ?fmt = "[\<lparr>indent = 2, justFn = rjust, fmtFn = (\<lambda>x. ''<'' @ x @ ''>'')\<rparr>,
           \<lparr>indent = 1, justFn = ljust, fmtFn = nofmt\<rparr>]"
  have h: "?a \<noteq> [] \<and> (\<forall>row \<in> set ?a. length row = length ?fmt)"
    by simp
  have p: "fst (formatRows ?a (plain_fmt ?fmt) (field_lens ?a) init_globals) ! 0 ! 0 = ''    a''"
    by code_simp
  from formatTable_widths [where a = ?a and fmt = ?fmt and g = init_globals] h
  have w: "field_lens ?a = map (\<lambda>j. Max ((\<lambda>row. int (length (row ! j))) ` set ?a)) [0..<length ?fmt]"
    and c: "\<forall>i < length ?a. \<forall>j < length ?fmt.
         fst (formatRows ?a ?fmt (field_lens ?a) init_globals) ! i ! j =
           spaces (indent (?fmt ! j)) @
           fmtFn (?fmt ! j)
             (drop (nat (indent (?fmt ! j)))
                (fst (formatRows ?a (plain_fmt ?fmt) (field_lens ?a) init_globals) ! i ! j))"
    by blast+
  have 1: "field_lens ?a = [3, 3]"
    unfolding w by (simp add: upt_rec)
  have e: "spaces (indent (?fmt ! 0)) @ fmtFn (?fmt ! 0) (drop (nat (indent (?fmt ! 0))) ''    a'')
      = ''  <  a>''"
    by code_simp
  have "fst (formatRows ?a ?fmt (field_lens ?a) init_globals) ! 0 ! 0 =
      spaces (indent (?fmt ! 0)) @ fmtFn (?fmt ! 0) (drop (nat (indent (?fmt ! 0))) ''    a'')"
    using c [rule_format, of 0 0] p by simp
  then have 2: "fst (formatRows ?a ?fmt (field_lens ?a) init_globals) ! 0 ! 0 = ''  <  a>''"
    by (simp only: e)
  from 1 2 show ?thesis by blast
qed

section \<open>Properties of the mapping differ\<close>

lemma keys_dict_of_items_aux:
  "fst ` set (fold (\<lambda>(k, v). AList.update k v) items acc) = fst ` set items \<union> fst ` set acc"
  by (induction items arbitrary: acc) (auto simp: dom_update split: prod.splits)

lemma keys_dict_of_items: "set (map fst (dict_of_items items)) = fst ` set items"
  by (simp add: dict_of_items_def keys_dict_of_items_aux)

lemma keys_rekey: "set (map fst (rekey hr m xs)) = (\<lambda>kv. hr (fst kv) m) ` set xs"
proof -
  have "fst ` set (map (\<lambda>(k, v). (hr k m, v)) xs) = (\<lambda>kv. hr (fst kv) m) ` set xs"
    by (force simp: image_iff split: prod.splits)
  then show ?thesis
    unfolding rekey_def keys_dict_of_items .
qed

text \<open>
  Claim C2. With \<open>C\<close> the human-readable triggers of the current map and \<open>D\<close> those of the
  default map, the differ computes added = C - D, removed = D - C and changed = the
  triggers of both whose actions differ; the unchanged triggers are those of both with
  equal actions; the four sets are pairwise disjoint and their union is C \<union> D.
\<close>

theorem compare_maps_partition:
  fixes hr :: "'e \<Rightarrow> int \<Rightarrow> string"
    and fm im :: int
    and final initial :: "('e \<times> string) list"
  defines "ef \<equiv> rekey hr fm final"
    and "ei \<equiv> rekey hr im initial"
    and "C \<equiv> (\<lambda>kv. hr (fst kv) fm) ` set final"
    and "D \<equiv> (\<lambda>kv. hr (fst kv) im) ` set initial"
  shows "added_keys ef ei = C - D \<and>
    removed_keys ef ei = D - C \<and>
    changed_keys ef ei = {k. k \<in> C \<inter> D \<and> map_of ef k \<noteq> map_of ei k} \<and>
    unchanged_keys ef ei = {k. k \<in> C \<inter> D \<and> map_of ef k = map_of ei k} \<and>
    added_keys ef ei \<inter> removed_keys ef ei = {} \<and>
    added_keys ef ei \<inter> changed_keys ef ei = {} \<and>
    added_keys ef ei \<inter> unchanged_keys ef ei = {} \<and>
    removed_keys ef ei \<inter> changed_keys ef ei = {} \<and>
    removed_keys ef ei \<inter> unchanged_keys ef ei = {} \<and>
    changed_keys ef ei \<inter> unchanged_keys ef ei = {} \<and>
    added_keys ef ei \<union> removed_keys ef ei \<union> changed_keys ef ei \<union> unchanged_keys ef ei
      = C \<union> D"
proof -
  have kf: "set (map fst ef) = C" unfolding ef_def C_def by (rule keys_rekey)
  have ki: "set (map fst ei) = D" unfolding ei_def D_def by (rule keys_rekey)
  have kd: "set (map fst (dict_of_items (ei @ ef))) = D \<union> C"
    unfolding keys_dict_of_items using kf ki by (simp add: image_Un)
  have a: "added_keys ef ei = C - D" unfolding added_keys_def kf ki ..
  have r: "removed_keys ef ei = D - C" unfolding removed_keys_def kf ki ..
  have c: "changed_keys ef ei = {k. k \<in> C \<inter> D \<and> map_of ef k \<noteq> map_of ei k}"
    unfolding changed_keys_def kf ki by auto
  have u: "unchanged_keys ef ei = {k. k \<in> C \<inter> D \<and> map_of ef k = map_of ei k}"
    unfolding unchanged_keys_def kd a r c by auto
  show ?thesis
    unfolding a r c u by auto
qed

theorem compare_maps_partition_witness:
  "added_keys (rekey (\<lambda>k m. k) 0 [(''ctrl+a'', ''previous_tab''), (''ctrl+n'', ''new_window'')])
     (rekey (\<lambda>k m. k) 0 [(''ctrl+a'', ''next_tab''), (''ctrl+x'', ''close_tab'')]) = {''ctrl+n''} \<and>
   removed_keys (rekey (\<lambda>k m. k) 0 [(''ctrl+a'', ''previous_tab''), (''ctrl+n'', ''new_window'')])
     (rekey (\<lambda>k m. k) 0 [(''ctrl+a'', ''next_tab''), (''ctrl+x'', ''close_tab'')]) = {''ctrl+x''}"
proof -
  have "{''ctrl+a'', ''ctrl+n''} - {''ctrl+a'', ''ctrl+x''} = {''ctrl+n''}"
    "{''ctrl+a'', ''ctrl+x''} - {''ctrl+a'', ''ctrl+n''} = {''ctrl+x''}"
    by auto
  with compare_maps_partition [of "\<lambda>k m. k" 0
      "[(''ctrl+a'', ''previous_tab''), (''ctrl+n'', ''new_window'')]" 0
      "[(''ctrl+a'', ''next_tab''), (''ctrl+x'', ''close_tab'')]"]
  show ?thesis by simp
qed

text \<open>
  Claim C1 fails on the code for a changed trigger. With the default map binding
  \<open>ctrl+a\<close> to \<open>next_tab\<close> and the current map binding it to \<open>previous_tab\<close> (links off, all
  parts on), the single row is flagged \<open>C\<close> and shows the current action in the action
  column, but the trailing column repeats the current action in parentheses: the loop
  reads \<^verbatim>\<open>defns[k]\<close> for it, in which the current map has overwritten the default, and
  never reads its parameter \<^verbatim>\<open>idefns\<close>, the default map.
\<close>

theorem changed_row_repeats_current_action:
  "fst (mapping_rows
         (dict_of_items (rekey (\<lambda>k m. k) 0 [(''ctrl+a'', ''next_tab'')] @
                         rekey (\<lambda>k m. k) 0 [(''ctrl+a'', ''previous_tab'')]))
         (added_keys (rekey (\<lambda>k m. k) 0 [(''ctrl+a'', ''previous_tab'')])
                     (rekey (\<lambda>k m. k) 0 [(''ctrl+a'', ''next_tab'')]))
         (removed_keys (rekey (\<lambda>k m. k) 0 [(''ctrl+a'', ''previous_tab'')])
                       (rekey (\<lambda>k m. k) 0 [(''ctrl+a'', ''next_tab'')]))
         (changed_keys (rekey (\<lambda>k m. k) 0 [(''ctrl+a'', ''previous_tab'')])
                       (rekey (\<lambda>k m. k) 0 [(''ctrl+a'', ''next_tab'')]))
         (init_globals\<lparr>cmdArgs := resolveParts (init_CmdArgs\<lparr>links := False\<rparr>)\<rparr>))
   = [[''ctrl+'', ''a'', ''  C  '', ''previous_tab'',
       [CHR '' '', CHR '' '', CHR 0x09] @ ''(previous_tab)'']]"
  by code_simp

section \<open>The selection object is only read\<close>

lemma print_keepsD: "print_keeps print \<Longrightarrow> cmdArgs (print args e s) = cmdArgs s"
  by (simp add: print_keeps_def)

lemma just_keepsD: "just_keeps j \<Longrightarrow> j n s g = (x, g') \<Longrightarrow> cmdArgs g' = cmdArgs g"
  unfolding just_keeps_def by (metis snd_conv)

lemma p_print_keeps: "print_keeps (p_print eol)"
  by (simp add: print_keeps_def p_print_def)

lemma noop_keeps: "print_keeps (\<lambda>args e s. s)"
  by (simp add: print_keeps_def)

lemma fold_keeps:
  assumes "\<And>x s. cmdArgs (f x s) = cmdArgs s"
  shows "cmdArgs (fold f xs s) = cmdArgs s"
  using assms by (induction xs arbitrary: s) simp_all

lemma link_keeps: "link u t g = (x, g') \<Longrightarrow> cmdArgs g' = cmdArgs g"
  by (auto simp: link_def Let_def)

lemma linkAction_keeps: "linkAction t g = (x, g') \<Longrightarrow> cmdArgs g' = cmdArgs g"
  unfolding linkAction_def by (rule link_keeps)

lemma linkConfig_keeps: "linkConfig t g = (x, g') \<Longrightarrow> cmdArgs g' = cmdArgs g"
  unfolding linkConfig_def by (rule link_keeps)

lemma formatAction_keeps: "formatAction n s g = (x, g') \<Longrightarrow> cmdArgs g' = cmdArgs g"
  by (auto simp: formatAction_def split: prod.splits dest: linkAction_keeps)

lemma formatConf_keeps: "formatConf n s g = (x, g') \<Longrightarrow> cmdArgs g' = cmdArgs g"
  by (auto simp: formatConf_def split: prod.splits dest: linkConfig_keeps)

lemma just_keeps_simps:
  "just_keeps nojust" "just_keeps ljust" "just_keeps rjust" "just_keeps formatAction"
  unfolding just_keeps_def
  by (simp_all add: nojust_def ljust_def rjust_def)
    (metis formatAction_keeps prod.collapse)

lemma formatCells_keeps:
  assumes "\<forall>c \<in> set cs. just_keeps (justFn (fst (snd c)))"
    and "formatCells cs g = (xs, g')"
  shows "cmdArgs g' = cmdArgs g"
  using assms
proof (induction cs arbitrary: g xs g')
  case Nil
  then show ?case by simp
next
  case (Cons c cs)
  obtain v f w where c: "c = (v, f, w)" by (cases c)
  obtain j g1 where j: "justFn f w v g = (j, g1)" by (cases "justFn f w v g")
  obtain ys g2 where r: "formatCells cs g1 = (ys, g2)" by (cases "formatCells cs g1")
  have "just_keeps (justFn f)" using Cons.prems(1) c by simp
  from just_keepsD [OF this j] have 1: "cmdArgs g1 = cmdArgs g" .
  have 2: "cmdArgs g2 = cmdArgs g1"
    using Cons.IH [OF _ r] Cons.prems(1) by simp
  have "g' = g2" using Cons.prems(2) by (simp add: c formatCell_def j r)
  with 1 2 show ?case by simp
qed

lemma formatRows_keeps:
  assumes "\<forall>f \<in> set fmt. just_keeps (justFn f)"
    and "formatRows a fmt ws g = (xs, g')"
  shows "cmdArgs g' = cmdArgs g"
  using assms(2)
proof (induction a arbitrary: g xs g')
  case Nil
  then show ?case by simp
next
  case (Cons row rows)
  obtain c g1 where c: "formatCells (zip row (zip fmt ws)) g = (c, g1)"
    by (cases "formatCells (zip row (zip fmt ws)) g")
  obtain r g2 where r: "formatRows rows fmt ws g1 = (r, g2)"
    by (cases "formatRows rows fmt ws g1")
  have "\<forall>c \<in> set (zip row (zip fmt ws)). just_keeps (justFn (fst (snd c)))"
  proof
    fix c assume c: "c \<in> set (zip row (zip fmt ws))"
    obtain v f w where e: "c = (v, f, w)" by (cases c)
    from c have "(f, w) \<in> set (zip fmt ws)"
      unfolding e by (rule set_zip_rightD)
    then have "f \<in> set fmt"
      by (rule set_zip_leftD)
    with assms(1) show "just_keeps (justFn (fst (snd c)))" by (simp add: e)
  qed
  from formatCells_keeps [OF this c] have 1: "cmdArgs g1 = cmdArgs g" .
  from Cons.IH [OF r] have 2: "cmdArgs g2 = cmdArgs g1" .
  have "g' = g2" using Cons.prems by (simp add: c r)
  with 1 2 show ?case by simp
qed

lemma formatTable_keeps:
  assumes "\<forall>f \<in> set fmt. just_keeps (justFn f)"
    and "formatTable a fmt g = (xs, g')"
  shows "cmdArgs g' = cmdArgs g"
  using assms(2) formatRows_keeps [OF assms(1)]
  by (auto simp: formatTable_def split: if_splits prod.splits)

lemma printTable_keeps:
  assumes "\<forall>f \<in> set fmt. just_keeps (justFn f)" "print_keeps print"
  shows "cmdArgs (printTable a fmt print rf g) = cmdArgs g"
proof -
  obtain rows g1 where t: "formatTable a fmt g = (rows, g1)" by (cases "formatTable a fmt g")
  have "cmdArgs (fold (\<lambda>(row, txt). print [rf row txt] None) rows g1) = cmdArgs g1"
    by (rule fold_keeps) (auto simp: print_keepsD [OF assms(2)])
  then show ?thesis
    using formatTable_keeps [OF assms(1) t] by (simp add: printTable_def t)
qed

lemma mapping_row_keeps:
  "mapping_row defns added removed changed k (table, g) = (table', g') \<Longrightarrow> cmdArgs g' = cmdArgs g"
proof -
  assume a: "mapping_row defns added removed changed k (table, g) = (table', g')"
  obtain v1 h1 where f1: "formatAction 0 (dict_get defns k) g = (v1, h1)"
    by (cases "formatAction 0 (dict_get defns k) g")
  have k1: "cmdArgs h1 = cmdArgs g" using formatAction_keeps [OF f1] .
  obtain w1 i1 where f3: "formatAction 0 (dict_get defns k) h1 = (w1, i1)"
    by (cases "formatAction 0 (dict_get defns k) h1")
  have k3: "cmdArgs i1 = cmdArgs g" using formatAction_keeps [OF f3] k1 by simp
  show ?thesis
    using a k1 k3 f1 f3
    by (auto simp: mapping_row_def Let_def split: if_splits prod.splits)
qed

lemma fold_pair_keeps:
  assumes "\<And>x t s t' s'. f x (t, s) = (t', s') \<Longrightarrow> cmdArgs s' = cmdArgs s"
  shows "fold f xs (t, s) = (t', s') \<Longrightarrow> cmdArgs s' = cmdArgs s"
proof (induction xs arbitrary: t s)
  case Nil
  then show ?case by simp
next
  case (Cons x xs)
  obtain t1 s1 where 1: "f x (t, s) = (t1, s1)" by (cases "f x (t, s)")
  from Cons.prems have "fold f xs (t1, s1) = (t', s')" by (simp add: 1)
  from Cons.IH [OF this] assms [OF 1] show ?case by simp
qed

lemma mapping_rows_keeps:
  "mapping_rows defns added removed changed g = (table, g') \<Longrightarrow> cmdArgs g' = cmdArgs g"
  unfolding mapping_rows_def
  by (rule fold_pair_keeps [where f = "mapping_row defns added removed changed"])
     (rule mapping_row_keeps)

lemma print_mapping_changes_keeps:
  assumes "print_keeps print"
  shows "cmdArgs (print_mapping_changes u wh defns idefns added removed changed text print g)
     = cmdArgs g"
proof -
  define g1 where "g1 = (if getattr (cmdArgs g) wh = Some True then print [title u text] None g else g)"
  have 1: "cmdArgs g1 = cmdArgs g"
    by (simp add: g1_def print_keepsD [OF assms])
  obtain table g2 where m: "mapping_rows defns added removed changed g1 = (table, g2)"
    by (cases "mapping_rows defns added removed changed g1")
  have 2: "cmdArgs g2 = cmdArgs g1" using mapping_rows_keeps [OF m] .
  have j: "\<forall>f \<in> set [\<lparr>indent = 2, justFn = rjust, fmtFn = yellow u\<rparr>,
                      \<lparr>indent = 0, justFn = ljust, fmtFn = green u\<rparr>,
                      \<lparr>indent = 0, justFn = nojust, fmtFn = red u\<rparr>,
                      TabFmt_default,
                      \<lparr>indent = 0, justFn = nojust, fmtFn = dim u\<rparr>]. just_keeps (justFn f)"
    by (simp add: just_keeps_simps TabFmt_default_def)
  show ?thesis
    unfolding print_mapping_changes_def Let_def g1_def [symmetric] m
    using 1 2 printTable_keeps [OF j assms] by simp
qed

lemma compare_maps_keeps:
  assumes "print_keeps print"
  shows "cmdArgs (compare_maps u hr wh final fm initial im print g) = cmdArgs g"
proof -
  obtain w g1 where l: "(if wh = Keys
                then link ''https://sw.kovidgoyal.net/kitty/conf/#keyboard-shortcuts''
                       ''keyboard shortcuts'' g
                else link ''https://sw.kovidgoyal.net/kitty/conf/#mouse-actions''
                       ''mouse actions'' g) = (w, g1)"
    by (cases "(if wh = Keys
                then link ''https://sw.kovidgoyal.net/kitty/conf/#keyboard-shortcuts''
                       ''keyboard shortcuts'' g
                else link ''https://sw.kovidgoyal.net/kitty/conf/#mouse-actions''
                       ''mouse actions'' g)")
  have "cmdArgs g1 = cmdArgs g"
    using l by (auto split: if_splits dest: link_keeps)
  then show ?thesis
    unfolding compare_maps_def Let_def l
    by (simp add: print_mapping_changes_keeps [OF assms])
qed

lemma fold_fst_keeps:
  assumes "fold f xs (s, t) = (s', t')"
    and "\<And>x s t s' t'. f x (s, t) = (s', t') \<Longrightarrow> cmdArgs s' = cmdArgs s"
  shows "cmdArgs s' = cmdArgs s"
  using assms(1)
proof (induction xs arbitrary: s t)
  case Nil
  then show ?case by simp
next
  case (Cons x xs)
  obtain s1 t1 where 1: "f x (s, t) = (s1, t1)" by (cases "f x (s, t)")
  from Cons.prems have "fold f xs (s1, t1) = (s', t')" by (simp add: 1)
  from Cons.IH [OF this] assms(2) [OF 1] show ?case by simp
qed

lemma compare_opt_keeps:
  assumes "print_keeps pc"
    and "compare_opt h pc changed_opts field_len f (g, cols) = (g', cols')"
  shows "cmdArgs g' = cmdArgs g"
proof -
  note pk = print_keepsD [OF assms(1)]
  obtain l g1 where lc: "linkConfig f g = (l, g1)" by (cases "linkConfig f g")
  have k1: "cmdArgs g1 = cmdArgs g" using linkConfig_keeps [OF lc] .
  obtain c g2 where fc: "formatConf field_len f g = (c, g2)" by (cases "formatConf field_len f g")
  have k2: "cmdArgs g2 = cmdArgs g" using formatConf_keeps [OF fc] .
  have fk: "cmdArgs (fold (\<lambda>e. pc (F e) None) es s) = cmdArgs s" for F :: "'x \<Rightarrow> string list" and es s
    by (rule fold_keeps) (simp add: pk)
  show ?thesis
    using assms(2) k1 k2
    by (auto simp: compare_opt_def Let_def lc fc pk fk split: if_splits optval.splits)
qed

lemma compare_opts_keeps:
  assumes "print_keeps print" "compare_opts h print g = Inr g'"
  shows "cmdArgs g' = cmdArgs g"
proof -
  define pc :: Print where "pc = (if config (cmdArgs g) = Some True then print else (\<lambda>args e s. s))"
  have pck: "print_keeps pc"
    unfolding pc_def using assms(1) noop_keeps by simp
  note pk = print_keepsD [OF assms(1)]
  obtain l g1 where lk: "link ''https://sw.kovidgoyal.net/kitty/conf/''
                 (what (cmdArgs g) @ '' config options:'') g = (l, g1)"
    by (cases "link ''https://sw.kovidgoyal.net/kitty/conf/''
                 (what (cmdArgs g) @ '' config options:'') g")
  have k1: "cmdArgs g1 = cmdArgs g" using link_keeps [OF lk] .
  define g2 where "g2 = pc [l] None g1"
  have k2: "cmdArgs g2 = cmdArgs g" using k1 print_keepsD [OF pck] by (simp add: g2_def)
  have fk: "cmdArgs g3 = cmdArgs g2"
    if "fold (compare_opt h pc co fl) xs (g2, []) = (g3, cols)" for co fl xs g3 cols
    using that
    by (rule fold_fst_keeps [where f = "compare_opt h pc co fl"])
       (rule compare_opt_keeps [OF pck])
  show ?thesis
    using assms(2) k2
    unfolding compare_opts_def Let_def pc_def [symmetric] lk prod.case g2_def [symmetric]
    by (auto simp: pk compare_maps_keeps [OF assms(1)] split: if_splits prod.splits dest!: fk)
qed

lemma info_issue_keeps:
  "print_keeps p \<Longrightarrow> info_issue h p g = Inr g' \<Longrightarrow> cmdArgs g' = cmdArgs g"
  by (auto simp: info_issue_def print_keepsD split: if_splits sum.splits file_state.splits)

lemma info_lsb_release_keeps:
  "print_keeps p \<Longrightarrow> info_lsb_release h p g = Inr g' \<Longrightarrow> cmdArgs g' = cmdArgs g"
  by (auto simp: info_lsb_release_def print_keepsD split: file_state.splits)

lemma info_rest_keeps: "print_keeps p \<Longrightarrow> cmdArgs (info_rest h p g) = cmdArgs g"
  by (simp add: info_rest_def Let_def print_keepsD)

lemma info_section_keeps:
  assumes "print_keeps p" "info_section h p g = Inr g'"
  shows "cmdArgs g' = cmdArgs g"
proof (cases "info (cmdArgs g) = Some True")
  case False
  with assms(2) show ?thesis by (simp add: info_section_def)
next
  case True
  note pk = print_keepsD [OF assms(1)]
  obtain s n r v m where u: "os_uname (probe h) = (s, n, r, v, m)"
    by (cases "os_uname (probe h)")
  define g1 where "g1 = p [join '' '' [s, n, r, v, m]] None (p [version h] None g)"
  have k1: "cmdArgs g1 = cmdArgs g" by (simp add: g1_def pk)
  from assms(2) True obtain g2 g3 g4 where
    2: "(if is_macos h
         then (case sw_vers h of Inl e \<Rightarrow> Inl e
               | Inr ls \<Rightarrow> Inr (p [strip (join ''  '' ls)] None g1))
         else Inr g1) = Inr g2"
    and 3: "info_issue h p g2 = Inr g3"
    and 4: "info_lsb_release h p g3 = Inr g4"
    and 5: "g' = info_rest h p g4"
    unfolding info_section_def u prod.case Let_def g1_def [symmetric]
    by (auto split: sum.splits if_splits)
  have k2: "cmdArgs g2 = cmdArgs g1"
    using 2 by (auto simp: pk split: if_splits sum.splits)
  show ?thesis
    using k1 k2 info_issue_keeps [OF assms(1) 3] info_lsb_release_keeps [OF assms(1) 4]
      info_rest_keeps [OF assms(1), of h g4] 5 by simp
qed

lemma env_section_keeps:
  assumes "print_keeps p"
  shows "cmdArgs (env_section h p g) = cmdArgs g"
proof -
  have j: "\<forall>f \<in> set [\<lparr>indent = 6, justFn = ljust, fmtFn = yellow (ui h)\<rparr>,
                 \<lparr>indent = 3, justFn = nojust, fmtFn = nofmt\<rparr>]. just_keeps (justFn f)"
    by (simp add: just_keeps_simps)
  show ?thesis
    unfolding env_section_def
    by (simp add: print_keepsD [OF assms] printTable_keeps [OF j assms])
qed

lemma composite_rows_keeps:
  "composite_rows kvs g = (rows, g') \<Longrightarrow> cmdArgs g' = cmdArgs g"
proof (induction kvs arbitrary: g rows g')
  case Nil
  then show ?case by simp
next
  case (Cons kv kvs)
  obtain k v where kv: "kv = (k, v)" by (cases kv)
  obtain t g1 where f: "formatAction 0 v g = (t, g1)" by (cases "formatAction 0 v g")
  obtain rs g2 where r: "composite_rows kvs g1 = (rs, g2)" by (cases "composite_rows kvs g1")
  have "g' = g2" using Cons.prems by (simp add: kv f r)
  with Cons.IH [OF r] formatAction_keeps [OF f] show ?case by simp
qed

lemma print_simple_fold_keeps:
  assumes "print_keeps print"
  shows "cmdArgs (snd (fold (print_simple u print) kvs (i, g))) = cmdArgs g"
proof (induction kvs arbitrary: i g)
  case Nil
  show ?case by simp
next
  case (Cons kv kvs)
  obtain i1 g1 where 1: "print_simple u print kv (i, g) = (i1, g1)"
    by (cases "print_simple u print kv (i, g)")
  have "cmdArgs g1 = cmdArgs g"
    using 1 by (auto simp: print_simple_def Let_def print_keepsD [OF assms] split: if_splits)
  with Cons [of i1 g1] show ?case by (simp add: 1)
qed

lemma print_action_keeps:
  assumes "print_keeps print"
  shows "cmdArgs (print_action u print rt g) = cmdArgs g"
proof -
  note pk = print_keepsD [OF assms]
  obtain row rowTxt where rt: "rt = (row, rowTxt)" by (cases rt)
  define g1 where "g1 = (if empty' (cmdArgs g) then print [rowTxt] None g else g)"
  have k1: "cmdArgs g1 = cmdArgs g" by (simp add: g1_def pk)
  show ?thesis
  proof (cases "map_of (action2key g1) (sub_space_tail (row ! 1))")
    case None
    then show ?thesis
      unfolding print_action_def rt prod.case Let_def g1_def [symmetric] using k1 by simp
  next
    case (Some kvs)
    define g2 where "g2 = (if \<not> empty' (cmdArgs g1) then print [rowTxt] None g1 else g1)"
    have k2: "cmdArgs g2 = cmdArgs g" using k1 by (simp add: g2_def pk)
    define srt where "srt = map snd (sort (map (\<lambda>(k, v). ((v, shortcutSortKey k), (k, v))) kvs))"
    define simple where "simple = filter (\<lambda>v. snd v = sub_space_tail (row ! 1)) srt"
    define g3 where "g3 = (if length simple > 0
                            then print [] None
                                   (snd (fold (print_simple u print) simple
                                           (0, print [''       ''] (Some []) g2)))
                            else g2)"
    have k3: "cmdArgs g3 = cmdArgs g"
      using k2 by (simp add: g3_def pk print_simple_fold_keeps [OF assms])
    obtain rows g4 where c: "composite_rows (filter (\<lambda>v. snd v \<noteq> sub_space_tail (row ! 1)) srt) g3
        = (rows, g4)"
      by (cases "composite_rows (filter (\<lambda>v. snd v \<noteq> sub_space_tail (row ! 1)) srt) g3")
    have k4: "cmdArgs g4 = cmdArgs g" using composite_rows_keeps [OF c] k3 by simp
    have j: "\<forall>f \<in> set [\<lparr>indent = 10, justFn = rjust, fmtFn = yellow u\<rparr>,
                             \<lparr>indent = 0, justFn = ljust, fmtFn = green u\<rparr>,
                             \<lparr>indent = 3, justFn = nojust, fmtFn = nofmt\<rparr>]. just_keeps (justFn f)"
      by (simp add: just_keeps_simps)
    show ?thesis
      unfolding print_action_def rt prod.case Let_def g1_def [symmetric] Some option.case
        g2_def [symmetric] srt_def [symmetric] simple_def [symmetric] g3_def [symmetric] c
      using k4 printTable_keeps [OF j assms] by simp
  qed
qed

lemma printActions_keeps:
  assumes "print_keeps print"
  shows "cmdArgs (printActions h print g) = cmdArgs g"
proof -
  let ?fmt = "[\<lparr>indent = 0, justFn = ljust, fmtFn = blue (ui h)\<rparr>,
              \<lparr>indent = 2, justFn = formatAction, fmtFn = nofmt\<rparr>,
              \<lparr>indent = 3, justFn = nojust, fmtFn = dim (ui h)\<rparr>]"
  let ?a = "map (\<lambda>(grp, action, desc). [grp, action, desc]) (getActions h)"
  have j: "\<forall>f \<in> set ?fmt. just_keeps (justFn f)"
    by (simp add: just_keeps_simps)
  obtain tab g1 where t: "formatTable ?a ?fmt g = (tab, g1)" by (cases "formatTable ?a ?fmt g")
  have "cmdArgs (fold (print_action (ui h) print) tab g1) = cmdArgs g1"
    by (rule fold_keeps) (rule print_action_keeps [OF assms])
  with formatTable_keeps [OF j t] show ?thesis
    by (simp add: printActions_def t)
qed

lemma actions_section_keeps:
  assumes "print_keeps p"
  shows "cmdArgs (actions_section h p g) = cmdArgs g"
proof -
  obtain l g1 where lk: "link ''https://sw.kovidgoyal.net/kitty/actions/''
                   (what (cmdArgs g) @ '' available actions:'') g = (l, g1)"
    by (cases "link ''https://sw.kovidgoyal.net/kitty/actions/''
                   (what (cmdArgs g) @ '' available actions:'') g")
  show ?thesis
    using link_keeps [OF lk]
    by (simp add: actions_section_def lk printActions_keeps [OF assms] print_keepsD [OF assms])
qed

lemma assemble_keeps:
  assumes "assemble h g = Inr g'"
  shows "cmdArgs g' = cmdArgs g"
proof -
  let ?p = "p_print (eolnl g)"
  note pk = p_print_keeps [of "eolnl g"]
  from assms obtain g1 g2 where 1: "info_section h ?p (g\<lparr>out := []\<rparr>) = Inr g1"
    and 2: "compare_opts h ?p g1 = Inr g2"
    and 3: "g' = actions_section h ?p (env_section h ?p (?p [] None g2))"
    unfolding assemble_def Let_def by (auto split: sum.splits)
  have "cmdArgs g1 = cmdArgs g" using info_section_keeps [OF pk 1] by simp
  moreover have "cmdArgs g2 = cmdArgs g1" using compare_opts_keeps [OF pk 2] .
  ultimately show ?thesis
    unfolding 3
    by (simp add: actions_section_keeps [OF pk] env_section_keeps [OF pk] print_keepsD [OF pk])
qed

section \<open>Properties of the report\<close>

lemma open_esc_cut:
  "CHR ''m'' \<in> set cs \<Longrightarrow> open_esc (tl (dropWhile (\<lambda>x. x \<noteq> CHR ''m'') cs)) = open_esc cs"
  by (induction cs) auto

lemma esc_strip_sgr: "CHR 0x1B \<in> set (strip_sgr s) \<longleftrightarrow> open_esc s"
proof (induction s rule: strip_sgr.induct)
  case 1
  show ?case by simp
next
  case (2 c cs)
  show ?case
  proof (cases "c = CHR 0x1B \<and> CHR ''m'' \<in> set cs")
    case True
    with 2(1) open_esc_cut [of cs] show ?thesis by simp
  next
    case False
    with 2(2) show ?thesis by auto
  qed
qed

lemma open_esc_iff:
  "open_esc s \<longleftrightarrow> (\<exists>pre post. s = pre @ CHR 0x1B # post \<and> CHR ''m'' \<notin> set post)"
proof (induction s)
  case Nil
  show ?case by simp
next
  case (Cons c cs)
  show ?case
  proof
    assume "open_esc (c # cs)"
    then consider "c = CHR 0x1B" "CHR ''m'' \<notin> set cs" | "open_esc cs" by auto
    then show "\<exists>pre post. c # cs = pre @ CHR 0x1B # post \<and> CHR ''m'' \<notin> set post"
    proof cases
      case 1
      then have "c # cs = [] @ CHR 0x1B # cs \<and> CHR ''m'' \<notin> set cs" by simp
      then show ?thesis by blast
    next
      case 2
      with Cons obtain pre post where "cs = pre @ CHR 0x1B # post" "CHR ''m'' \<notin> set post"
        by blast
      then have "c # cs = (c # pre) @ CHR 0x1B # post \<and> CHR ''m'' \<notin> set post" by simp
      then show ?thesis by blast
    qed
  next
    assume "\<exists>pre post. c # cs = pre @ CHR 0x1B # post \<and> CHR ''m'' \<notin> set post"
    then obtain pre post where e: "c # cs = pre @ CHR 0x1B # post" and m: "CHR ''m'' \<notin> set post"
      by blast
    show "open_esc (c # cs)"
    proof (cases pre)
      case Nil
      with e m show ?thesis by simp
    next
      case (Cons x xs)
      with e have "cs = xs @ CHR 0x1B # post" by simp
      with m Cons.IH have "open_esc cs" by blast
      then show ?thesis by simp
    qed
  qed
qed

text \<open>
  Claim C6, as amended. With plain mode on, a report that is returned is the assembled
  text with every stretch from an escape character to the next \<open>m\<close> removed; it holds an
  escape character exactly when the assembled text has one that no \<open>m\<close> follows.
\<close>

theorem plain_report_stripped:
  assumes "plain (cmdArgs g)" and "debug_config h g = Inr (t, g')"
  shows "t = strip_sgr (out g') \<and>
    (CHR 0x1B \<in> set t \<longleftrightarrow>
       (\<exists>pre post. out g' = pre @ CHR 0x1B # post \<and> CHR ''m'' \<notin> set post))"
proof -
  from assms(2) have a: "assemble h g = Inr g'"
    and t: "t = (if \<not> plain (cmdArgs g') then out g' else strip_sgr (out g'))"
    by (auto simp: debug_config_def split: sum.splits)
  have "plain (cmdArgs g')"
    using assemble_keeps [OF a] assms(1) by simp
  with t have "t = strip_sgr (out g')" by simp
  then show ?thesis
    by (simp add: esc_strip_sgr open_esc_iff)
qed

theorem plain_report_stripped_witness:
  "plain (cmdArgs plain_env_globals) \<and>
   (case debug_config (example_host\<lparr>environ := [(''VISUAL'', ''vim'')]\<rparr>) plain_env_globals of
      Inl e \<Rightarrow> False
    | Inr (t, g') \<Rightarrow> t = strip_sgr (out g') \<and> CHR 0x1B \<notin> set t)"
proof -
  let ?h = "example_host\<lparr>environ := [(''VISUAL'', ''vim'')]\<rparr>"
  have p: "plain (cmdArgs plain_env_globals)"
    by code_simp
  have r: "case debug_config ?h plain_env_globals of Inl e \<Rightarrow> False
      | Inr (t, g') \<Rightarrow> CHR 0x1B \<notin> set t"
    by code_simp
  then obtain t g' where e: "debug_config ?h plain_env_globals = Inr (t, g')"
    by (cases "debug_config ?h plain_env_globals") auto
  from plain_report_stripped [OF p e] r p show ?thesis
    by (simp add: e)
qed

text \<open>
  Claim C6 as stated fails: after \<^verbatim>\<open>--plain --env\<close>, with the variable \<open>VISUAL\<close> set to
  the escape sequence that shows the cursor, which ends in \<open>h\<close>, the returned text still
  holds the escape character.
\<close>

theorem plain_report_keeps_escape:
  "plain (cmdArgs plain_env_globals) \<and>
   map_sum id fst
     (debug_config (example_host\<lparr>environ := [(''VISUAL'', [CHR 0x1B] @ ''[?25h'')]\<rparr>)
        plain_env_globals)
   = Inr ([CHR 0x0A] @ ''Important environment variables seen by the kitty process:'' @
          [CHR 0x0A] @ ''      VISUAL   '' @ [CHR 0x1B] @ ''[?25h'' @ [CHR 0x0A, CHR 0x0A])"
  by code_simp

text \<open>
  Claim C9, as amended. When the terminal name probe returns or raises \<open>OSError\<close>, the
  TTY attributes are read, or raise \<open>OSError\<close>, or the input is no TTY, and the user count
  returns or raises \<open>RuntimeError\<close>, the issue data is built with these fields: the host
  name is \<open>localhost\<close> when the lookup raises anything, the TTY name is \<open>(none)\<close> when
  the probe raises, the baud rate is 0 when the attributes are not had, the user count is
  -1 when its probe raises. A missing \<^verbatim>\<open>/etc/issue\<close> or \<^verbatim>\<open>/etc/lsb-release\<close>, and a
  failure to build the issue data, leave the banner out and the report goes on.
\<close>

theorem probe_fallbacks:
  "((ctermid pr = Inl OSError \<or> (\<exists>raw. ctermid pr = Inr raw)) \<and>
    (\<not> stdin_isatty pr \<or> tcgetattr_ospeed pr = Inl OSError \<or> (\<exists>b. tcgetattr_ospeed pr = Inr b)) \<and>
    (num_users_probe pr = Inl RuntimeError \<or> (\<exists>u. num_users_probe pr = Inr u)) \<longrightarrow>
    (\<exists>d. IssueData_init pr = Inr d \<and>
       hostname d = (case gethostname pr of Inl e \<Rightarrow> ''localhost'' | Inr n \<Rightarrow> n) \<and>
       tty_name d = (case ctermid pr of Inl e \<Rightarrow> ''(none)'' | Inr raw \<Rightarrow> format_tty_name raw) \<and>
       baud_rate d = (if stdin_isatty pr
                      then (case tcgetattr_ospeed pr of Inl e \<Rightarrow> 0 | Inr b \<Rightarrow> b) else 0) \<and>
       num_users d = (case num_users_probe pr of Inl e \<Rightarrow> - 1 | Inr u \<Rightarrow> u))) \<and>
   (etc_issue h = Missing \<longrightarrow> info_issue h p g = Inr g) \<and>
   ((\<exists>e. IssueData_init (probe h) = Inl e) \<longrightarrow> info_issue h p g = Inr g) \<and>
   (etc_lsb_release h = Missing \<longrightarrow> info_lsb_release h p g = Inr g)"
proof (intro conjI impI)
  assume a: "(ctermid pr = Inl OSError \<or> (\<exists>raw. ctermid pr = Inr raw)) \<and>
    (\<not> stdin_isatty pr \<or> tcgetattr_ospeed pr = Inl OSError \<or> (\<exists>b. tcgetattr_ospeed pr = Inr b)) \<and>
    (num_users_probe pr = Inl RuntimeError \<or> (\<exists>u. num_users_probe pr = Inr u))"
  obtain s n r v m where u: "os_uname pr = (s, n, r, v, m)" by (cases "os_uname pr")
  from a show "\<exists>d. IssueData_init pr = Inr d \<and>
       hostname d = (case gethostname pr of Inl e \<Rightarrow> ''localhost'' | Inr n \<Rightarrow> n) \<and>
       tty_name d = (case ctermid pr of Inl e \<Rightarrow> ''(none)'' | Inr raw \<Rightarrow> format_tty_name raw) \<and>
       baud_rate d = (if stdin_isatty pr
                      then (case tcgetattr_ospeed pr of Inl e \<Rightarrow> 0 | Inr b \<Rightarrow> b) else 0) \<and>
       num_users d = (case num_users_probe pr of Inl e \<Rightarrow> - 1 | Inr u \<Rightarrow> u)"
    by (auto simp: IssueData_init_def u Let_def)
next
  assume "etc_issue h = Missing"
  then show "info_issue h p g = Inr g" by (simp add: info_issue_def)
next
  assume "\<exists>e. IssueData_init (probe h) = Inl e"
  then show "info_issue h p g = Inr g" by (auto simp: info_issue_def)
next
  assume "etc_lsb_release h = Missing"
  then show "info_lsb_release h p g = Inr g" by (simp add: info_lsb_release_def)
qed

theorem probe_fallbacks_witness:
  "(case IssueData_init failing_probes of
      Inl e \<Rightarrow> False
    | Inr d \<Rightarrow> hostname d = ''localhost'' \<and> tty_name d = ''(none)'' \<and> baud_rate d = 0 \<and>
               num_users d = - 1) \<and>
   info_issue example_host (p_print [CHR 0x0A]) init_globals = Inr init_globals \<and>
   info_issue (example_host\<lparr>etc_issue := Readable ''x'', probe := example_probes\<lparr>ctermid := Inl ValueError\<rparr>\<rparr>)
     (p_print [CHR 0x0A]) init_globals = Inr init_globals \<and>
   info_lsb_release example_host (p_print [CHR 0x0A]) init_globals = Inr init_globals"
proof -
  let ?h2 = "example_host\<lparr>etc_issue := Readable ''x'', probe := example_probes\<lparr>ctermid := Inl ValueError\<rparr>\<rparr>"
  have c: "ctermid failing_probes = Inl OSError" "stdin_isatty failing_probes"
    "tcgetattr_ospeed failing_probes = Inl OSError" "num_users_probe failing_probes = Inl RuntimeError"
    "gethostname failing_probes = Inl OSError"
    by (simp_all add: failing_probes_def)
  have m: "etc_issue example_host = Missing" "etc_lsb_release example_host = Missing"
    by (simp_all add: example_host_def)
  have f: "\<exists>e. IssueData_init (probe ?h2) = Inl e"
    by (simp add: IssueData_init_def example_probes_def)
  note t = probe_fallbacks [of failing_probes example_host "p_print [CHR 0x0A]" init_globals]
  note t2 = probe_fallbacks [of failing_probes ?h2 "p_print [CHR 0x0A]" init_globals]
  from t c obtain d where d: "IssueData_init failing_probes = Inr d"
    "hostname d = ''localhost''" "tty_name d = ''(none)''" "baud_rate d = 0" "num_users d = - 1"
    by auto
  from t m have 2: "info_issue example_host (p_print [CHR 0x0A]) init_globals = Inr init_globals"
    and 4: "info_lsb_release example_host (p_print [CHR 0x0A]) init_globals = Inr init_globals"
    by blast+
  from t2 f have 3: "info_issue ?h2 (p_print [CHR 0x0A]) init_globals = Inr init_globals"
    by blast
  from d 2 3 4 show ?thesis by simp
qed

text \<open>
  Claim C9 as stated fails for a file that exists and cannot be opened: \<^verbatim>\<open>open\<close> stands
  outside every handler, and the report ends with the exception.
\<close>

theorem unreadable_file_fails_report:
  "debug_config (example_host\<lparr>etc_lsb_release := Unreadable OSError\<rparr>)
     (init_globals\<lparr>cmdArgs := resolveParts init_CmdArgs\<rparr>) = Inl OSError \<and>
   debug_config (example_host\<lparr>etc_issue := Unreadable OSError\<rparr>)
     (init_globals\<lparr>cmdArgs := resolveParts init_CmdArgs\<rparr>) = Inl OSError"
  by code_simp

end
